theory Spec2Isabelle
  imports Main "HOL-Library.Word" "HOL-Library.Log_Nat"
begin

section \<open>JavaScript strings\<close>

text \<open>
  A JavaScript string is a sequence of UTF-16 code units; \<open>length\<close>, \<open>slice\<close>,
  \<open>indexOf\<close> and \<open>includes\<close> all count code units.  ASCII literals of the source are
  written \<open>js ''...''\<close>; the few non-ASCII characters of the source file are given by
  their code units.
\<close>

type_synonym jschar = "16 word"
type_synonym jsstring = "jschar list"

definition js :: "string \<Rightarrow> jsstring" where
  "js s = map of_char s"

text \<open>White space and line terminators of ECMAScript: what \<open>trim\<close> strips and what
  the regular expression class \<open>\s\<close> matches.\<close>

definition isWhiteSpace :: "jschar \<Rightarrow> bool" where
  "isWhiteSpace c \<longleftrightarrow>
     c = 0x9 \<or> c = 0xA \<or> c = 0xB \<or> c = 0xC \<or> c = 0xD \<or> c = 0x20 \<or> c = 0xA0 \<or>
     c = 0x1680 \<or> (0x2000 \<le> c \<and> c \<le> 0x200A) \<or> c = 0x2028 \<or> c = 0x2029 \<or>
     c = 0x202F \<or> c = 0x205F \<or> c = 0x3000 \<or> c = 0xFEFF"

definition trim :: "jsstring \<Rightarrow> jsstring" where
  "trim s = rev (dropWhile isWhiteSpace (rev (dropWhile isWhiteSpace s)))"

fun includes_str :: "jsstring \<Rightarrow> jsstring \<Rightarrow> bool" where
  "includes_str [] w = (w = [])"
| "includes_str (c # cs) w = (take (length w) (c # cs) = w \<or> includes_str cs w)"

text \<open>\<open>s.indexOf(w)\<close>: the first position at which \<open>w\<close> occurs in \<open>s\<close>, or \<open>-1\<close>.\<close>

fun indexOf :: "jsstring \<Rightarrow> jsstring \<Rightarrow> int" where
  "indexOf [] w = (if w = [] then 0 else - 1)"
| "indexOf (c # cs) w =
     (if take (length w) (c # cs) = w then 0
      else (let r = indexOf cs w in if r < 0 then - 1 else r + 1))"

text \<open>\<open>s.slice(0, n)\<close> for a non-negative \<open>n\<close>.\<close>

definition slice0 :: "nat \<Rightarrow> jsstring \<Rightarrow> jsstring" where
  "slice0 n s = take n s"

text \<open>\<open>s.split(/\s+/)\<close>: the pieces of \<open>s\<close> between maximal runs of white space.  The
  flag says that the scan is inside a separator run.\<close>

fun splitWS :: "bool \<Rightarrow> jsstring \<Rightarrow> jsstring \<Rightarrow> jsstring list" where
  "splitWS sep cur [] = [cur]"
| "splitWS sep cur (c # cs) =
     (if isWhiteSpace c
      then (if sep then splitWS True cur cs else cur # splitWS True [] cs)
      else splitWS False (cur @ [c]) cs)"

definition split_ws :: "jsstring \<Rightarrow> jsstring list" where
  "split_ws s = splitWS False [] s"

text \<open>\<open>text.split(/\s+/).filter(Boolean).length\<close>: the empty string is the only falsy
  string.\<close>

definition wordCount :: "jsstring \<Rightarrow> nat" where
  "wordCount text = length (filter (\<lambda>w. w \<noteq> []) (split_ws text))"

text \<open>Decimal rendering of a non-negative integer, as template literals do.\<close>

fun show_nat :: "nat \<Rightarrow> jsstring" where
  "show_nat n =
     (if n < 10 then [of_nat (48 + n)]
      else show_nat (n div 10) @ [of_nat (48 + n mod 10)])"

declare show_nat.simps [simp del]

section \<open>JavaScript numbers\<close>

text \<open>
  Counters and scores are integers far below \<open>2^53\<close>, where binary64 arithmetic is
  exact; they are modelled as \<open>nat\<close> and \<open>int\<close>.  Quotients, products with the
  fractional weights and their sums are binary64 values: each operation returns the
  exact result rounded to the nearest representable number, ties to even.  A finite
  binary64 number is modelled by the rational it denotes.  Overflow to \<open>Infinity\<close> is
  left out: it needs a count above \<open>2^1000\<close>, and it would leave each comparison of
  the program as it is.  The one division whose divisor can be zero is treated where it
  occurs.
\<close>

text \<open>\<open>binade x\<close> is the integer \<open>e\<close> with \<open>2^e \<le> x < 2^(e+1)\<close>, for \<open>x > 0\<close>.\<close>

definition binade :: "rat \<Rightarrow> int" where
  "binade x = (if 1 \<le> x then bitlen \<lfloor>x\<rfloor> - 1 else - bitlen (\<lceil>1 / x\<rceil> - 1))"

definition roundTiesToEven :: "rat \<Rightarrow> int" where
  "roundTiesToEven q =
     (let f = \<lfloor>q\<rfloor>; d = q - of_int f
      in if d < 1 / 2 then f else if 1 / 2 < d then f + 1
         else if even f then f else f + 1)"

text \<open>Rounding to binary64: 53 significant bits, subnormal below \<open>2^-1022\<close>.\<close>

definition fl :: "rat \<Rightarrow> rat" where
  "fl x =
     (if x = 0 then 0
      else (let p = max (binade \<bar>x\<bar>) (- 1022) - 52
            in of_int (roundTiesToEven (x / 2 powi p)) * 2 powi p))"

definition js_mul :: "rat \<Rightarrow> rat \<Rightarrow> rat" where
  "js_mul x y = fl (x * y)"

definition js_add :: "rat \<Rightarrow> rat \<Rightarrow> rat" where
  "js_add x y = fl (x + y)"

text \<open>Division by a non-zero divisor.\<close>

definition js_div :: "rat \<Rightarrow> rat \<Rightarrow> rat" where
  "js_div x y = fl (x / y)"

text \<open>\<open>Math.round\<close>: the nearest integer, the one closer to \<open>+\<infinity>\<close> on a tie.\<close>

definition Math_round :: "rat \<Rightarrow> int" where
  "Math_round x = \<lfloor>x + 1 / 2\<rfloor>"

text \<open>\<open>x.toFixed(1)\<close> for \<open>x\<close> below \<open>10^21\<close>: the integer \<open>n\<close> with \<open>n / 10\<close> nearest
  to \<open>x\<close> (the larger one on a tie), written with one digit after the point.\<close>

definition toFixed1 :: "rat \<Rightarrow> jsstring" where
  "toFixed1 x =
     (let n = nat \<lfloor>\<bar>x\<bar> * 10 + 1 / 2\<rfloor>
      in (if x < 0 then js ''-'' else []) @ show_nat (n div 10) @ js ''.'' @ show_nat (n mod 10))"

text \<open>The binary64 values of the literals \<open>0.25\<close>, \<open>0.15\<close>, \<open>0.20\<close>, \<open>0.10\<close>.\<close>

definition d025 :: rat where "d025 = 1 / 4"
definition d015 :: rat where "d015 = 5404319552844595 / 36028797018963968"
definition d020 :: rat where "d020 = 3602879701896397 / 18014398509481984"
definition d010 :: rat where "d010 = 3602879701896397 / 36028797018963968"

section \<open>The parsed document\<close>

text \<open>
  The tree that \<open>cheerio.load\<close> builds: elements with a tag name, attributes and
  children; text, comment and directive (doctype) nodes.
\<close>

datatype node =
    Element (tagName: jsstring) (attribs: "(jsstring \<times> jsstring) list") (childNodes: "node list")
  | Text jsstring
  | Comment jsstring
  | Directive jsstring

text \<open>A selection is a list of elements in document order; each element comes with
  the siblings that follow it, which is what \<open>next\<close> and \<open>nextAll\<close> read.\<close>

type_synonym selection = "(node \<times> node list) list"

fun isElement :: "node \<Rightarrow> bool" where
  "isElement (Element t a cs) = True"
| "isElement n = False"

text \<open>All elements of a forest that satisfy a selector, in document order.\<close>

fun matches :: "(node \<Rightarrow> bool) \<Rightarrow> node list \<Rightarrow> selection" where
  "matches P [] = []"
| "matches P (Element t a cs # ns) =
     (if P (Element t a cs) then [(Element t a cs, ns)] else []) @ matches P cs @ matches P ns"
| "matches P (n # ns) = matches P ns"

text \<open>\<open>.text()\<close>: the text nodes below the selected elements, concatenated.\<close>

fun textContent :: "node \<Rightarrow> jsstring" where
  "textContent (Text d) = d"
| "textContent (Element t a cs) = concat (map textContent cs)"
| "textContent n = []"

definition text_of :: "selection \<Rightarrow> jsstring" where
  "text_of sel = concat (map (\<lambda>(n, sibs). textContent n) sel)"

definition first :: "selection \<Rightarrow> selection" where
  "first sel = take 1 sel"

text \<open>\<open>.find(selector)\<close>: the matching descendants of the selected elements.\<close>

definition find_sel :: "(node \<Rightarrow> bool) \<Rightarrow> selection \<Rightarrow> selection" where
  "find_sel P sel = concat (map (\<lambda>(n, sibs). case n of Element t a cs \<Rightarrow> matches P cs | _ \<Rightarrow> []) sel)"

text \<open>The following siblings that are elements, each with its own following siblings.\<close>

fun followingElements :: "node list \<Rightarrow> selection" where
  "followingElements [] = []"
| "followingElements (n # ns) = (if isElement n then [(n, ns)] else []) @ followingElements ns"

text \<open>\<open>.next()\<close>: the immediately following sibling element of each selected element.\<close>

definition next_sel :: "selection \<Rightarrow> selection" where
  "next_sel sel = concat (map (\<lambda>(n, sibs). take 1 (followingElements sibs)) sel)"

text \<open>\<open>.nextAll(selector)\<close>: the following sibling elements that match.\<close>

definition nextAll :: "(node \<Rightarrow> bool) \<Rightarrow> selection \<Rightarrow> selection" where
  "nextAll P sel = concat (map (\<lambda>(n, sibs). filter (\<lambda>(m, r). P m) (followingElements sibs)) sel)"

subsection \<open>Selectors\<close>

definition tag :: "string \<Rightarrow> node \<Rightarrow> bool" where
  "tag t n = (case n of Element tg a cs \<Rightarrow> tg = js t | _ \<Rightarrow> False)"

definition attr :: "string \<Rightarrow> node \<Rightarrow> jsstring option" where
  "attr a n = (case n of Element tg as cs \<Rightarrow> map_of as (js a) | _ \<Rightarrow> None)"

text \<open>\<open>[a="v"]\<close>, \<open>[a*="v"]\<close>, \<open>[a^="v"]\<close>, \<open>.c\<close> and \<open>#i\<close>.\<close>

definition attrEq :: "string \<Rightarrow> string \<Rightarrow> node \<Rightarrow> bool" where
  "attrEq a v n = (attr a n = Some (js v))"

text \<open>\<open>[a="v"]\<close> for an attribute whose values HTML compares without regard to case
  (\<open>type\<close> and \<open>rel\<close> among the attributes of the source's selectors): the selector
  engine lower-cases the selector's value and accepts an attribute value of the same
  length whose lower-cased form equals it.  The argument \<open>lower\<close> is
  \<open>String.prototype.toLowerCase\<close>.\<close>

definition attrEqIgnoreCase :: "(jsstring \<Rightarrow> jsstring) \<Rightarrow> string \<Rightarrow> string \<Rightarrow> node \<Rightarrow> bool" where
  "attrEqIgnoreCase lower a v n =
     (case attr a n of
        Some x \<Rightarrow> length x = length (lower (js v)) \<and> lower x = lower (js v)
      | None \<Rightarrow> False)"

definition attrContains :: "string \<Rightarrow> string \<Rightarrow> node \<Rightarrow> bool" where
  "attrContains a v n = (case attr a n of Some x \<Rightarrow> includes_str x (js v) | None \<Rightarrow> False)"

definition attrStartsWith :: "string \<Rightarrow> string \<Rightarrow> node \<Rightarrow> bool" where
  "attrStartsWith a v n = (case attr a n of Some x \<Rightarrow> take (length v) x = js v | None \<Rightarrow> False)"

definition hasClass :: "string \<Rightarrow> node \<Rightarrow> bool" where
  "hasClass c n = (case attr ''class'' n of Some x \<Rightarrow> js c \<in> set (split_ws x) | None \<Rightarrow> False)"

definition hasId :: "string \<Rightarrow> node \<Rightarrow> bool" where
  "hasId i n = attrEq ''id'' i n"


section \<open>What the analyzer takes from its libraries\<close>

text \<open>
  The regular expressions of the source are run by the JavaScript engine; the model
  names each literal and takes the engine's verdicts as given:
  \<^item> \<open>FACT_PATTERN\<close>: the number, percentage, year and month-name pattern of
    \<open>checkFactDensity\<close> (flags \<open>gi\<close>);
  \<^item> \<open>AUTHOR_PATTERN\<close>: \<open>/written by|by [A-Z][a-z]+ [A-Z][a-z]+/i\<close>;
  \<^item> \<open>TRUST_EXPERIENCE\<close> to \<open>TRUST_USERS\<close>: the six entries of \<open>trustSignals\<close>, in order.
\<close>

datatype regex =
    FACT_PATTERN | AUTHOR_PATTERN
  | TRUST_EXPERIENCE | TRUST_CERTIFIED | TRUST_AWARD | TRUST_PUBLISHED | TRUST_TRUSTED | TRUST_USERS

text \<open>A value returned by \<open>JSON.parse\<close>; an object is given by its own properties.\<close>

datatype jsvalue =
    JNull | JBool bool | JNumber rat | JString jsstring
  | JArray "jsvalue list" | JObject "(jsstring \<times> jsvalue) list"

text \<open>
  The library and engine functions that the analyzer calls and that are not modelled
  further: \<open>cheerio.load\<close>, the serialisation \<open>$(el).html()\<close> of an element's content,
  \<open>String.prototype.toLowerCase\<close>, the number of matches \<open>(s.match(r) ?? []).length\<close> of a
  global pattern, \<open>r.test(s)\<close> (equally \<open>s.match(r) !== null\<close>), and \<open>JSON.parse\<close>, whose
  \<open>None\<close> is the thrown \<open>SyntaxError\<close>.
\<close>

record runtime =
  load :: "jsstring \<Rightarrow> node list"
  html :: "node \<Rightarrow> jsstring"
  toLowerCase :: "jsstring \<Rightarrow> jsstring"
  matchCount :: "regex \<Rightarrow> jsstring \<Rightarrow> nat"
  test :: "regex \<Rightarrow> jsstring \<Rightarrow> bool"
  JSON_parse :: "jsstring \<Rightarrow> jsvalue option"

text \<open>Truthiness; \<open>None\<close> is \<open>undefined\<close>.\<close>

fun truthy :: "jsvalue option \<Rightarrow> bool" where
  "truthy None = False"
| "truthy (Some JNull) = False"
| "truthy (Some (JBool b)) = b"
| "truthy (Some (JNumber x)) = (x \<noteq> 0)"
| "truthy (Some (JString s)) = (s \<noteq> [])"
| "truthy (Some (JArray xs)) = True"
| "truthy (Some (JObject ps)) = True"

text \<open>\<open>json[key]\<close> for a key that no prototype defines: a \<open>TypeError\<close> (the outer
  \<open>None\<close>) on \<open>null\<close>, the own property of an object, \<open>undefined\<close> otherwise.\<close>

fun getProperty :: "jsvalue \<Rightarrow> jsstring \<Rightarrow> jsvalue option option" where
  "getProperty JNull k = None"
| "getProperty (JObject ps) k = Some (map_of ps k)"
| "getProperty v k = Some None"

section \<open>Types of the analyzer\<close>

datatype issue_type =
    AnswerPlacement | FactDensity | HeadingStructure | EEAT | Snippability | Schema | Meta

datatype severity = High | Medium | Low

text \<open>The field \<open>fix\<close> of an issue is named \<open>fixText\<close> here.\<close>

record AnalysisIssue =
  type :: issue_type
  severity :: severity
  message :: jsstring
  fixText :: jsstring

record Breakdown =
  answerFrontLoading :: int
  factDensity :: int
  headingStructure :: int
  eeatSignals :: int
  snippability :: int
  schemaCoverage :: int

record AIReadabilityScore =
  overallScore :: int
  breakdown :: Breakdown
  issues :: "AnalysisIssue list"
  recommendations :: "jsstring list"

text \<open>\<open>Required<AnalyzerOptions>\<close>: the options of an analyzer after the constructor has
  filled the absent ones from \<open>DEFAULT_OPTIONS\<close>.  The fields carry the suffix
  \<open>_option\<close> because four of them share their name with a method.\<close>

record AnalyzerOptions =
  checkAnswerPlacement_option :: bool
  checkFactDensity_option :: bool
  checkHeadingStructure_option :: bool
  checkEEAT_option :: bool
  checkSnippability_option :: bool
  checkSchema_option :: bool

definition DEFAULT_OPTIONS :: AnalyzerOptions where
  "DEFAULT_OPTIONS =
     \<lparr>checkAnswerPlacement_option = True, checkFactDensity_option = True,
      checkHeadingStructure_option = True, checkEEAT_option = True,
      checkSnippability_option = True, checkSchema_option = True\<rparr>"

record ContentAnalyzer =
  options :: AnalyzerOptions

text \<open>What a check returns: \<open>{ score, issues }\<close>.\<close>

type_synonym check_result = "int \<times> AnalysisIssue list"

definition issue :: "issue_type \<Rightarrow> severity \<Rightarrow> jsstring \<Rightarrow> jsstring \<Rightarrow> AnalysisIssue" where
  "issue t s m f = \<lparr>type = t, severity = s, message = m, fixText = f\<rparr>"


section \<open>The checks\<close>

subsection \<open>Answer placement\<close>

text \<open>The selector \<open>main, article, [role="main"], .content, #content\<close>.\<close>

definition mainSelector :: "node \<Rightarrow> bool" where
  "mainSelector n \<longleftrightarrow>
     tag ''main'' n \<or> tag ''article'' n \<or> attrEq ''role'' ''main'' n \<or>
     hasClass ''content'' n \<or> hasId ''content'' n"

text \<open>The paragraph that is inspected: \<open>firstP\<close> of the source.\<close>

definition firstP :: "node list \<Rightarrow> selection" where
  "firstP doc =
     (let mainContent = first (matches mainSelector doc)
      in if length mainContent \<noteq> 0
         then first (find_sel (tag ''p'') mainContent)
         else first (nextAll (tag ''p'') (first (matches (tag ''h1'') doc))))"

definition answerWords :: "jsstring list" where
  "answerWords =
     [js ''is'', js ''are'', js ''helps'', js ''provides'', js ''enables'', js ''allows'',
      js ''lets'', js ''gives'', js ''makes'']"

text \<open>\<open>firstPPosition / allText.length > 0.2\<close>.  A quotient by zero is \<open>+Infinity\<close> for a
  positive dividend and \<open>NaN\<close> or \<open>-Infinity\<close> otherwise; only the first exceeds \<open>0.2\<close>.\<close>

definition positionRatioTooFar :: "int \<Rightarrow> nat \<Rightarrow> bool" where
  "positionRatioTooFar firstPPosition len =
     (if len = 0 then 0 < firstPPosition
      else d020 < js_div (of_int firstPPosition) (of_nat len))"

definition checkAnswerFrontLoading :: "runtime \<Rightarrow> node list \<Rightarrow> check_result" where
  "checkAnswerFrontLoading rt doc =
     (let h1 = first (matches (tag ''h1'') doc)
      in if length h1 = 0
         then (0, [issue AnswerPlacement High (js ''No H1 tag found on the page'')
                     (js ''Add a clear, descriptive H1 tag that states what this page is about'')])
         else
           (let firstPText = trim (text_of (firstP doc))
            in if firstPText = [] \<or> length firstPText < 30
               then (20, [issue AnswerPlacement High (js ''No substantive paragraph found after H1'')
                     (js ''Add a clear, direct answer or description in the first paragraph immediately after your H1'')])
               else
                 (let h1Text = toLowerCase rt (text_of h1);
                      hasDirectAnswer =
                        list_ex (\<lambda>w. includes_str (toLowerCase rt firstPText) w) answerWords;
                      allText = text_of (matches (tag ''body'') doc);
                      firstPPosition = indexOf allText (slice0 50 firstPText)
                  in if \<not> hasDirectAnswer
                     then (55, [issue AnswerPlacement Medium
                            (js ''First paragraph may not directly answer the page topic'')
                            (js ''Start with a direct statement like '' @ [0x22] @ js ''This page covers...''
                               @ [0x22] @ js '' or '' @ [0x22] @ h1Text @ js '' is...'' @ [0x22])])
                     else if positionRatioTooFar firstPPosition (length allText)
                     then (65, [issue AnswerPlacement Medium
                            (js ''Main answer appears too far down the page'')
                            (js ''Move the key answer/description to the very top of the page content'')])
                     else (95, []))))"

subsection \<open>Fact density\<close>

text \<open>The body of the loop over the paragraphs: the state is
  \<open>(totalWords, verifiableFacts)\<close>.\<close>

definition countParagraph :: "runtime \<Rightarrow> nat \<times> nat \<Rightarrow> node \<times> node list \<Rightarrow> nat \<times> nat" where
  "countParagraph rt acc el =
     (let paragraphText = text_of [el];
          words = wordCount paragraphText;
          facts = matchCount rt FACT_PATTERN paragraphText
      in (fst acc + words, snd acc + facts))"

text \<open>\<open>(verifiableFacts / totalWords) * 100\<close>.\<close>

definition factsPerHundred :: "nat \<Rightarrow> nat \<Rightarrow> rat" where
  "factsPerHundred verifiableFacts totalWords =
     js_mul (js_div (of_nat verifiableFacts) (of_nat totalWords)) 100"

definition checkFactDensity :: "runtime \<Rightarrow> node list \<Rightarrow> check_result" where
  "checkFactDensity rt doc =
     (let paragraphs = matches (tag ''p'') doc;
          (totalWords, verifiableFacts) = foldl (countParagraph rt) (0, 0) paragraphs
      in if totalWords = 0
         then (0, [issue FactDensity High (js ''No paragraph content found'')
                     (js ''Add substantive text content to the page'')])
         else
           (let r = factsPerHundred verifiableFacts totalWords
            in if r < 2
               then (25, [issue FactDensity High
                      (js ''Very low fact density: '' @ toFixed1 r @ js '' facts per 100 words (target: 4-6)'')
                      (js ''Add specific numbers, dates, statistics, or measurable claims to support your content'')])
               else if r < 4
               then (60, [issue FactDensity Medium
                      (js ''Below-target fact density: '' @ toFixed1 r @ js '' facts per 100 words (target: 4-6)'')
                      (js ''Include more specific data points, percentages, or concrete examples'')])
               else if 10 < r
               then (75, [issue FactDensity Low
                      (js ''Very high fact density '' @ [0xE2, 0x20AC, 0x201D]
                         @ js '' content may feel dense or list-heavy'')
                      (js ''Add explanatory prose between data points to improve readability'')])
               else (95, [])))"

subsection \<open>Heading structure\<close>

text \<open>\<open>parseInt(el.tagName.replace('h', ''), 10)\<close> on an element that the selector
  \<open>h1, h2, h3, h4\<close> has matched.\<close>

definition headingLevel :: "node \<Rightarrow> nat" where
  "headingLevel el =
     (if tag ''h1'' el then 1 else if tag ''h2'' el then 2 else if tag ''h3'' el then 3 else 4)"

text \<open>The arrow of the messages, as the source file spells it.\<close>

definition arrow :: jsstring where
  "arrow = [0xE2, 0x2020, 0x2019]"

text \<open>The selectors \<open>h1, h2, h3, h4\<close> and \<open>h1, h2, h3\<close>.\<close>

definition headingSelector :: "node \<Rightarrow> bool" where
  "headingSelector n \<longleftrightarrow> tag ''h1'' n \<or> tag ''h2'' n \<or> tag ''h3'' n \<or> tag ''h4'' n"

definition upperHeadingSelector :: "node \<Rightarrow> bool" where
  "upperHeadingSelector n \<longleftrightarrow> tag ''h1'' n \<or> tag ''h2'' n \<or> tag ''h3'' n"

text \<open>The issues of the check that the properties below name.\<close>

definition missingH1Issue :: AnalysisIssue where
  "missingH1Issue =
     issue HeadingStructure High (js ''Missing H1 tag'')
       (js ''Add exactly one H1 tag as the main page title'')"

definition h3WithoutH2Issue :: AnalysisIssue where
  "h3WithoutH2Issue =
     issue HeadingStructure Medium (js ''H3 tags used without any H2 tags'')
       (js ''Add H2 headings to create proper hierarchy: H1 '' @ arrow @ js '' H2 ''
          @ arrow @ js '' H3'')"

definition skippedLevelIssue :: "nat \<Rightarrow> nat \<Rightarrow> AnalysisIssue" where
  "skippedLevelIssue lastLevel level =
     issue HeadingStructure Low
       (js ''Heading level skipped: H'' @ show_nat lastLevel @ js '' '' @ arrow
          @ js '' H'' @ show_nat level)
       (js ''Add an H'' @ show_nat (lastLevel + 1) @ js '' between your H''
          @ show_nat lastLevel @ js '' and H'' @ show_nat level)"

text \<open>The body of the loop over \<open>h1, h2, h3, h4\<close>: the state is
  \<open>(lastLevel, issues, score)\<close>.\<close>

definition skipStep ::
  "nat \<times> AnalysisIssue list \<times> int \<Rightarrow> node \<times> node list \<Rightarrow> nat \<times> AnalysisIssue list \<times> int" where
  "skipStep st el =
     (case st of (lastLevel, iss, score) \<Rightarrow>
        (let level = headingLevel (fst el)
         in if level > lastLevel + 1
            then (level, iss @ [skippedLevelIssue lastLevel level], score - 10)
            else (level, iss, score)))"

text \<open>The body of the loop over \<open>h1, h2, h3\<close>: the state is \<open>(iss, score)\<close>.\<close>

definition emptyStep ::
  "AnalysisIssue list \<times> int \<Rightarrow> node \<times> node list \<Rightarrow> AnalysisIssue list \<times> int" where
  "emptyStep st el =
     (case st of (iss, score) \<Rightarrow>
        if trim (text_of [el]) = []
        then (iss @ [issue HeadingStructure Medium (js ''Empty heading tag found'')
                          (js ''Remove or fill empty heading tags'')],
              score - 10)
        else (iss, score))"

definition checkHeadingStructure :: "node list \<Rightarrow> check_result" where
  "checkHeadingStructure doc =
     (let h1Count = length (matches (tag ''h1'') doc);
          h2s = matches (tag ''h2'') doc;
          h3s = matches (tag ''h3'') doc;
          (issues1, score1) =
            (if h1Count = 0
             then ([missingH1Issue], 100 - 40)
             else if h1Count > 1
             then ([issue HeadingStructure Medium
                      (js ''Multiple H1 tags found ('' @ show_nat h1Count @ js '')'')
                      (js ''Use only one H1 per page. Demote additional H1s to H2'')], 100 - 20)
             else ([], 100));
          (issues2, score2) =
            (if length h3s > 0 \<and> length h2s = 0
             then (issues1 @ [h3WithoutH2Issue], score1 - 20)
             else (issues1, score1));
          (lastLevel, issues3, score3) =
            foldl skipStep (1, issues2, score2)
              (matches headingSelector doc);
          (issues4, score4) =
            foldl emptyStep (issues3, score3)
              (matches upperHeadingSelector doc)
      in (max 0 score4, issues4))"


subsection \<open>E-E-A-T signals\<close>

text \<open>\<open>[itemtype*="Person"], [itemprop="author"], meta[name="author"], .author,
  [rel="author"]\<close>.  The value of \<open>rel\<close> is compared without regard to case.\<close>

definition authorSelector :: "runtime \<Rightarrow> node \<Rightarrow> bool" where
  "authorSelector rt n \<longleftrightarrow>
     attrContains ''itemtype'' ''Person'' n \<or> attrEq ''itemprop'' ''author'' n \<or>
     (tag ''meta'' n \<and> attrEq ''name'' ''author'' n) \<or> hasClass ''author'' n \<or>
     attrEqIgnoreCase (toLowerCase rt) ''rel'' ''author'' n"

text \<open>\<open>[itemtype*="Organization"], [itemprop="publisher"]\<close>.\<close>

definition orgSelector :: "node \<Rightarrow> bool" where
  "orgSelector n \<longleftrightarrow>
     attrContains ''itemtype'' ''Organization'' n \<or> attrEq ''itemprop'' ''publisher'' n"

text \<open>\<open>meta[property="og:site_name"]\<close>.\<close>

definition siteNameSelector :: "node \<Rightarrow> bool" where
  "siteNameSelector n \<longleftrightarrow> tag ''meta'' n \<and> attrEq ''property'' ''og:site_name'' n"

text \<open>\<open>a[href^="mailto:"], a[href^="tel:"], [role="contentinfo"], footer\<close>.\<close>

definition contactSelector :: "node \<Rightarrow> bool" where
  "contactSelector n \<longleftrightarrow>
     (tag ''a'' n \<and> attrStartsWith ''href'' ''mailto:'' n) \<or>
     (tag ''a'' n \<and> attrStartsWith ''href'' ''tel:'' n) \<or>
     attrEq ''role'' ''contentinfo'' n \<or> tag ''footer'' n"

definition trustSignals :: "regex list" where
  "trustSignals =
     [TRUST_EXPERIENCE, TRUST_CERTIFIED, TRUST_AWARD, TRUST_PUBLISHED, TRUST_TRUSTED, TRUST_USERS]"

definition checkEEAT :: "runtime \<Rightarrow> node list \<Rightarrow> check_result" where
  "checkEEAT rt doc =
     (let maxScore = 100;
          hasAuthor =
            (length (matches (authorSelector rt) doc) > 0 \<or>
             test rt AUTHOR_PATTERN (text_of (matches (tag ''body'') doc)));
          (issues1, score1) =
            (if hasAuthor then ([], 0 + 25)
             else ([issue EEAT Medium (js ''No author information detected'')
                      (js ''Add author name with a link to their bio or use schema.org Person markup'')],
                   0));
          hasOrg =
            (length (matches orgSelector doc) > 0 \<or> length (matches siteNameSelector doc) > 0);
          (issues2, score2) =
            (if hasOrg then (issues1, score1 + 25)
             else (issues1 @ [issue EEAT Low (js ''No organization/publisher markup found'')
                      (js ''Add Organization schema or og:site_name meta tag'')],
                   score1));
          hasContact = (length (matches contactSelector doc) > 0);
          (issues3, score3) =
            (if hasContact then (issues2, score2 + 25)
             else (issues2 @ [issue EEAT Medium (js ''No contact information found'')
                      (js ''Add email, phone, or contact page link '' @ [0xE2, 0x20AC, 0x201D]
                         @ js '' AI models use this as a trust signal'')],
                   score2));
          bodyText = text_of (matches (tag ''body'') doc);
          hasTrustSignals = list_ex (\<lambda>pattern. test rt pattern bodyText) trustSignals;
          (issues4, score4) =
            (if hasTrustSignals then (issues3, score3 + 25)
             else (issues3 @ [issue EEAT Low (js ''No expertise/trust signals detected'')
                      (js ''Add credentials, years of experience, customer counts, or press mentions'')],
                   score3))
      in (min score4 maxScore, issues4))"

subsection \<open>Snippability\<close>

text \<open>The selector \<open>h2, h3\<close>.\<close>

definition subheadingSelector :: "node \<Rightarrow> bool" where
  "subheadingSelector n \<longleftrightarrow> tag ''h2'' n \<or> tag ''h3'' n"

text \<open>The body of the loop over \<open>h2, h3\<close>: the state is
  \<open>(snippableCount, totalChecked, issues)\<close>.\<close>

definition snippableStep ::
  "nat \<times> nat \<times> AnalysisIssue list \<Rightarrow> node \<times> node list \<Rightarrow> nat \<times> nat \<times> AnalysisIssue list" where
  "snippableStep st el =
     (case st of (snippableCount, totalChecked, iss) \<Rightarrow>
        (let nextEl = next_sel [el];
             nextText = trim (text_of nextEl)
         in if length nextText \<ge> 80
            then (snippableCount + 1, totalChecked + 1, iss)
            else (snippableCount, totalChecked + 1,
                  iss @ [issue Snippability Low
                     (js ''Section '' @ [0x22] @ trim (text_of [el]) @ [0x22]
                        @ js '' has insufficient content below it'')
                     (js ''Add at least 2-3 sentences of context below each heading so the section can stand alone'')])))"

text \<open>\<open>Math.round((snippableCount / Math.max(totalChecked, 1)) * 100)\<close>.\<close>

definition snippabilityScore :: "nat \<Rightarrow> nat \<Rightarrow> int" where
  "snippabilityScore snippableCount totalChecked =
     Math_round (js_mul (js_div (of_nat snippableCount) (of_nat (max totalChecked 1))) 100)"

definition checkSnippability :: "node list \<Rightarrow> check_result" where
  "checkSnippability doc =
     (let headings = matches subheadingSelector doc
      in if length headings = 0
         then (30, [issue Snippability Medium (js ''No H2/H3 subheadings found'')
                 (js ''Break content into sections with descriptive H2/H3 headings so AI can extract individual sections'')])
         else
           (let (snippableCount, totalChecked, iss) = foldl snippableStep (0, 0, []) headings
            in (snippabilityScore snippableCount totalChecked, iss)))"

subsection \<open>Schema coverage\<close>

text \<open>\<open>script[type="application/ld+json"]\<close>.  The value of \<open>type\<close> is compared without
  regard to case.\<close>

definition schemaSelector :: "runtime \<Rightarrow> node \<Rightarrow> bool" where
  "schemaSelector rt n \<longleftrightarrow>
     tag ''script'' n \<and> attrEqIgnoreCase (toLowerCase rt) ''type'' ''application/ld+json'' n"

definition parseErrorIssue :: AnalysisIssue where
  "parseErrorIssue =
     issue Schema Medium (js ''Invalid JSON-LD schema found (parse error)'')
       (js ''Validate your JSON-LD using schema.org validator or use SchemaBuilder'')"

text \<open>The body of the loop over the scripts: the state is \<open>(validSchemas, issues)\<close>.  The
  \<open>catch\<close> block takes the \<open>SyntaxError\<close> of \<open>JSON.parse\<close> and the \<open>TypeError\<close> of a
  property read on \<open>null\<close> alike.\<close>

definition schemaStep ::
  "runtime \<Rightarrow> nat \<times> AnalysisIssue list \<Rightarrow> node \<times> node list \<Rightarrow> nat \<times> AnalysisIssue list" where
  "schemaStep rt st el =
     (case st of (validSchemas, iss) \<Rightarrow>
        (case JSON_parse rt (html rt (fst el)) of
           None \<Rightarrow> (validSchemas, iss @ [parseErrorIssue])
         | Some json \<Rightarrow>
             (case getProperty json (js ''@context'') of
                None \<Rightarrow> (validSchemas, iss @ [parseErrorIssue])
              | Some c \<Rightarrow>
                  if truthy c
                  then (case getProperty json (js ''@type'') of
                          None \<Rightarrow> (validSchemas, iss @ [parseErrorIssue])
                        | Some t \<Rightarrow> if truthy t then (validSchemas + 1, iss) else (validSchemas, iss))
                  else (validSchemas, iss))))"

definition checkSchemaCoverage :: "runtime \<Rightarrow> node list \<Rightarrow> check_result" where
  "checkSchemaCoverage rt doc =
     (let schemaScripts = matches (schemaSelector rt) doc
      in if length schemaScripts = 0
         then (0, [issue Schema High (js ''No JSON-LD structured data found'')
                 (js ''Add JSON-LD schema markup using SchemaBuilder from ai-visibility'')])
         else
           (let (validSchemas, issues1) = foldl (schemaStep rt) (0, []) schemaScripts
            in if validSchemas = 0 then (10, issues1)
               else
                 (let schemaText = text_of (matches (schemaSelector rt) doc);
                      hasFAQ = includes_str schemaText ([0x22] @ js ''FAQPage'' @ [0x22]);
                      hasOrg = includes_str schemaText ([0x22] @ js ''Organization'' @ [0x22]);
                      issues2 =
                        (if \<not> hasFAQ
                         then issues1 @ [issue Schema Low (js ''No FAQPage schema found'')
                           (js ''Add FAQ schema to help AI models extract Q&A content from your page'')]
                         else issues1);
                      issues3 =
                        (if \<not> hasOrg
                         then issues2 @ [issue Schema Low (js ''No Organization schema found'')
                           (js ''Add Organization schema to establish E-E-A-T signals for AI models'')]
                         else issues2);
                      score = (if hasFAQ \<and> hasOrg then 100 else if hasFAQ \<or> hasOrg then 75 else 50)
                  in (score, issues3))))"

section \<open>Recommendations\<close>

text \<open>The pictographs that open the recommendations are given by the code units that
  the source file holds for them.\<close>

definition generateRecommendations :: "Breakdown \<Rightarrow> jsstring list" where
  "generateRecommendations b =
     (let recs =
        (if answerFrontLoading b < 70
         then [([0xF0, 0x178, 0x201C, 0x152]
               @ js '' Front-load your answers: AI models prioritize content in the first 20% of a section'')]
         else []) @
        (if factDensity b < 60
         then [([0xF0, 0x178, 0x201C, 0x160]
               @ js '' Add more data: Include specific numbers, dates, and statistics to improve citability'')]
         else []) @
        (if headingStructure b < 80
         then [([0xF0, 0x178, 0x2014, 0xEF, 0xB8] @ js '' Fix heading hierarchy: Use H1 '' @ arrow
               @ js '' H2 '' @ arrow @ js '' H3 consistently for better content parsing'')]
         else []) @
        (if eeatSignals b < 60
         then [([0xF0, 0x178, 0x2020]
               @ js '' Boost E-E-A-T: Add author credentials, company info, and trust signals'')]
         else []) @
        (if snippability b < 70
         then [([0xE2, 0x153, 0x201A, 0xEF, 0xB8]
               @ js '' Improve snippability: Each section should be self-contained and informative'')]
         else []) @
        (if schemaCoverage b < 50
         then [([0xF0, 0x178, 0x201D, 0x2013]
               @ js '' Add structured data: Use SchemaBuilder to add JSON-LD markup for AI understanding'')]
         else [])
      in if length recs = 0
         then [([0xE2, 0x153, 0x2026] @ js '' Great job! Your content is well-optimized for AI visibility'')]
         else recs)"

section \<open>The analyzer\<close>

text \<open>The \<open>weights\<close> object and \<open>Object.entries(breakdown)\<close>, in the order in which the
  properties were created.\<close>

definition weights :: "(string \<times> rat) list" where
  "weights =
     [(''answerFrontLoading'', d025), (''factDensity'', d015), (''headingStructure'', d015),
      (''eeatSignals'', d020), (''snippability'', d010), (''schemaCoverage'', d015)]"

definition entries :: "Breakdown \<Rightarrow> (string \<times> int) list" where
  "entries b =
     [(''answerFrontLoading'', answerFrontLoading b), (''factDensity'', factDensity b),
      (''headingStructure'', headingStructure b), (''eeatSignals'', eeatSignals b),
      (''snippability'', snippability b), (''schemaCoverage'', schemaCoverage b)]"

text \<open>The reducer \<open>sum + score * (weights[key] ?? 0)\<close>, started at \<open>0\<close>.\<close>

definition weightedSum :: "Breakdown \<Rightarrow> rat" where
  "weightedSum b =
     foldl (\<lambda>sum (key, score).
              js_add sum (js_mul (of_int score) (case map_of weights key of Some w \<Rightarrow> w | None \<Rightarrow> 0)))
       0 (entries b)"

text \<open>The comparator's table \<open>{ high: 0, medium: 1, low: 2 }\<close>.\<close>

fun order :: "severity \<Rightarrow> nat" where
  "order High = 0"
| "order Medium = 1"
| "order Low = 2"

text \<open>The six checks of \<open>analyze\<close>, in the order of the source: the breakdown and the
  \<open>issues\<close> array as they stand before the overall score is computed.  A disabled check
  scores \<open>100\<close> and pushes nothing.\<close>

definition runChecks :: "runtime \<Rightarrow> ContentAnalyzer \<Rightarrow> node list \<Rightarrow> Breakdown \<times> AnalysisIssue list" where
  "runChecks rt this doc =
     (let (s1, i1) = (if checkAnswerPlacement_option (options this)
                      then checkAnswerFrontLoading rt doc else (100, []));
          (s2, i2) = (if checkFactDensity_option (options this)
                      then checkFactDensity rt doc else (100, []));
          (s3, i3) = (if checkHeadingStructure_option (options this)
                      then checkHeadingStructure doc else (100, []));
          (s4, i4) = (if checkEEAT_option (options this)
                      then checkEEAT rt doc else (100, []));
          (s5, i5) = (if checkSnippability_option (options this)
                      then checkSnippability doc else (100, []));
          (s6, i6) = (if checkSchema_option (options this)
                      then checkSchemaCoverage rt doc else (100, []))
      in (\<lparr>answerFrontLoading = s1, factDensity = s2, headingStructure = s3,
           eeatSignals = s4, snippability = s5, schemaCoverage = s6\<rparr>,
          i1 @ i2 @ i3 @ i4 @ i5 @ i6))"

text \<open>
  \<open>analyze\<close> reads \<open>this.options\<close> and writes no field of the analyzer; the analyzer
  is returned unchanged beside the result.
  \<open>Array.prototype.sort\<close> is stable, so it is the stable insertion sort by the
  comparator's key.
\<close>

definition analyze :: "runtime \<Rightarrow> ContentAnalyzer \<Rightarrow> jsstring \<Rightarrow> AIReadabilityScore \<times> ContentAnalyzer" where
  "analyze rt this html_text =
     (let doc = load rt html_text;
          (b, collected) = runChecks rt this doc
      in (\<lparr>overallScore = Math_round (weightedSum b),
           breakdown = b,
           issues = sort_key (\<lambda>a. order (severity a)) collected,
           recommendations = generateRecommendations b\<rparr>,
          this))"

section \<open>Auxiliary predicates\<close>

text \<open>All issues of a list carry the given type.\<close>

definition all_of_type :: "issue_type \<Rightarrow> AnalysisIssue list \<Rightarrow> bool" where
  "all_of_type t xs = list_all (\<lambda>a. type a = t) xs"

section \<open>Example documents and runtimes\<close>

text \<open>The document that \<open>cheerio.load\<close> builds for the empty string: the \<open>html\<close>,
  \<open>head\<close> and \<open>body\<close> elements that the parser supplies, with no content.\<close>

definition emptyDocument :: "node list" where
  "emptyDocument =
     [Element (js ''html'') [] [Element (js ''head'') [] [], Element (js ''body'') [] []]]"

text \<open>\<open>toLowerCase\<close> on the letters \<open>A\<close> to \<open>Z\<close>; every other code unit is kept.\<close>

definition asciiLowerCase :: "jsstring \<Rightarrow> jsstring" where
  "asciiLowerCase s = map (\<lambda>c. if 0x41 \<le> c \<and> c \<le> 0x5A then c + 0x20 else c) s"

text \<open>A runtime whose parser returns the empty document, whose \<open>toLowerCase\<close> lower-cases
  the letters \<open>A\<close> to \<open>Z\<close>, whose patterns match nothing and whose \<open>JSON.parse\<close> rejects
  every text.\<close>

definition plainRuntime :: runtime where
  "plainRuntime =
     \<lparr>load = (\<lambda>s. emptyDocument), html = textContent, toLowerCase = asciiLowerCase,
      matchCount = (\<lambda>r s. 0), test = (\<lambda>r s. False), JSON_parse = (\<lambda>s. None)\<rparr>"

definition allDisabled :: AnalyzerOptions where
  "allDisabled =
     \<lparr>checkAnswerPlacement_option = False, checkFactDensity_option = False,
      checkHeadingStructure_option = False, checkEEAT_option = False,
      checkSnippability_option = False, checkSchema_option = False\<rparr>"

text \<open>A page that opens with a level-3 heading.\<close>

definition poorDocument :: "node list" where
  "poorDocument =
     [Element (js ''html'') []
        [Element (js ''head'') [] [],
         Element (js ''body'') []
           [Element (js ''h3'') [] [Text (js ''Some Subheading'')],
            Element (js ''p'') [] [Text (js ''Welcome to our amazing platform!'')]]]]"

text \<open>A page whose headings are a level-1 heading and then a level-3 heading.\<close>

definition skippedDocument :: "node list" where
  "skippedDocument =
     [Element (js ''html'') []
        [Element (js ''head'') [] [],
         Element (js ''body'') []
           [Element (js ''h1'') [] [Text (js ''Title'')],
            Element (js ''h3'') [] [Text (js ''Skipped H2'')],
            Element (js ''p'') []
              [Text (js ''Content here that is long enough to be meaningful.'')]]]]"

text \<open>The paragraph of claim C4, following the words of the specification: the first
  \<open>p\<close> element that comes after the first \<open>h1\<close> element in document order.\<close>

definition spec_firstParagraphAfterHeading :: "node list \<Rightarrow> node list" where
  "spec_firstParagraphAfterHeading doc =
     take 1 (filter (tag ''p'')
       (drop 1 (dropWhile (\<lambda>n. \<not> tag ''h1'' n) (map fst (matches (\<lambda>n. True) doc)))))"

text \<open>A page whose only paragraph is nested in a \<open>div\<close> that follows the heading.\<close>

definition nestedParagraph :: node where
  "nestedParagraph =
     Element (js ''p'') [] [Text (js ''Acme is a tool that helps teams ship software faster.'')]"

definition nestedDocument :: "node list" where
  "nestedDocument =
     [Element (js ''html'') []
        [Element (js ''head'') [] [],
         Element (js ''body'') []
           [Element (js ''h1'') [] [Text (js ''What is Acme?'')],
            Element (js ''div'') [] [nestedParagraph]]]]"

text \<open>A runtime that counts the digit \<open>7\<close> as the only fact token.\<close>

definition sevenRuntime :: runtime where
  "sevenRuntime =
     \<lparr>load = (\<lambda>s. emptyDocument), html = textContent, toLowerCase = asciiLowerCase,
      matchCount = (\<lambda>r s. length (filter (\<lambda>c. c = 0x37) s)), test = (\<lambda>r s. False),
      JSON_parse = (\<lambda>s. None)\<rparr>"

text \<open>Two paragraphs of 100 words each, six of which are the digit \<open>7\<close>.\<close>

definition hundredWords :: jsstring where
  "hundredWords = concat (replicate 6 (js ''7 '')) @ concat (replicate 94 (js ''a ''))"

definition factDocument :: "node list" where
  "factDocument =
     [Element (js ''html'') []
        [Element (js ''head'') [] [],
         Element (js ''body'') []
           [Element (js ''p'') [] [Text hundredWords],
            Element (js ''p'') [] [Text hundredWords]]]]"

section \<open>Properties\<close>

subsection \<open>Rounding to binary64\<close>

lemma bitlen_pos: "0 < n \<Longrightarrow> 0 < bitlen n"
  using bitlen_bounds [of n] by (cases "bitlen n \<le> 0") auto

lemma binade_bounds:
  assumes "0 < x"
  shows "2 powi binade x \<le> x \<and> x < 2 powi (binade x + 1)"
proof (cases "1 \<le> x")
  case True
  define n where "n = \<lfloor>x\<rfloor>"
  define b where "b = bitlen n"
  from True have n: "1 \<le> n" by (simp add: n_def)
  then have b: "0 < b" unfolding b_def by (intro bitlen_pos) simp
  from n bitlen_bounds [of n] have bb: "2 ^ nat (b - 1) \<le> n" "n < 2 ^ nat b"
    by (simp_all add: b_def)
  have e: "binade x = b - 1" using True by (simp add: binade_def n_def b_def)
  have "(2::rat) powi (b - 1) = of_int (2 ^ nat (b - 1))"
    using b by (simp add: power_int_nonneg_exp)
  also have "\<dots> \<le> of_int n" using bb(1) by (simp only: of_int_le_iff)
  also have "\<dots> \<le> x" by (simp add: n_def)
  finally have lo: "2 powi (b - 1) \<le> x" .
  have "x < of_int (n + 1)" unfolding n_def by linarith
  also have "\<dots> \<le> of_int (2 ^ nat b)"
  proof -
    from bb(2) have "n + 1 \<le> 2 ^ nat b" by simp
    then show ?thesis by (simp only: of_int_le_iff)
  qed
  also have "\<dots> = (2::rat) powi b" using b by (simp add: power_int_nonneg_exp)
  finally have hi: "x < 2 powi b" .
  from lo hi e show ?thesis by simp
next
  case False
  define c where "c = \<lceil>1 / x\<rceil>"
  define m where "m = bitlen (c - 1)"
  from False assms have inv: "1 < 1 / x" by (simp add: field_simps)
  then have c: "2 \<le> c" unfolding c_def by linarith
  then have m: "0 < m" unfolding m_def by (intro bitlen_pos) simp
  from c bitlen_bounds [of "c - 1"] have bb: "2 ^ nat (m - 1) \<le> c - 1" "c - 1 < 2 ^ nat m"
    by (simp_all add: m_def)
  have e: "binade x = - m" using False by (simp add: binade_def c_def m_def)
  have p1: "(2::rat) powi (- m) = 1 / 2 ^ nat m"
    using m by (simp add: power_int_minus_divide power_int_nonneg_exp)
  have p2: "(2::rat) powi (- m + 1) = 1 / 2 ^ nat (m - 1)"
  proof -
    have "(2::rat) powi (- m + 1) = 2 powi (- (m - 1))" by simp
    also have "\<dots> = 1 / 2 powi (m - 1)" by (rule power_int_minus_divide)
    also have "\<dots> = 1 / 2 ^ nat (m - 1)" using m by (simp add: power_int_nonneg_exp)
    finally show ?thesis .
  qed
  have "1 / x \<le> of_int c" unfolding c_def by linarith
  also have "of_int c \<le> (of_int (2 ^ nat m) :: rat)"
  proof -
    from bb(2) have "c \<le> 2 ^ nat m" by simp
    then show ?thesis by (simp only: of_int_le_iff)
  qed
  finally have "1 / x \<le> 2 ^ nat m" by simp
  with assms have lo: "1 / 2 ^ nat m \<le> x" by (simp add: field_simps)
  have "(of_int (2 ^ nat (m - 1)) :: rat) \<le> of_int (c - 1)" using bb(1) by (simp only: of_int_le_iff)
  also have "of_int (c - 1) < 1 / x" unfolding c_def by linarith
  finally have "2 ^ nat (m - 1) < 1 / x" by simp
  with assms have hi: "x < 1 / 2 ^ nat (m - 1)" by (simp add: field_simps)
  from lo hi e p1 p2 show ?thesis by simp
qed

lemma binade_mono:
  assumes "0 < x" and "x \<le> y"
  shows "binade x \<le> binade y"
proof -
  from assms have y: "0 < y" by simp
  have "(2::rat) powi binade x \<le> x" using binade_bounds [OF assms(1)] by simp
  also note assms(2)
  also have "y < 2 powi (binade y + 1)" using binade_bounds [OF y] by simp
  finally have lt: "(2::rat) powi binade x < 2 powi (binade y + 1)" .
  have "binade x < binade y + 1"
  proof (rule ccontr)
    assume "\<not> binade x < binade y + 1"
    then have "binade y + 1 \<le> binade x" by simp
    then have "(2::rat) powi (binade y + 1) \<le> 2 powi binade x"
      by (rule power_int_increasing) simp
    with lt show False by simp
  qed
  then show ?thesis by simp
qed

lemma roundTiesToEven_bounds: "\<lfloor>q\<rfloor> \<le> roundTiesToEven q \<and> roundTiesToEven q \<le> \<lfloor>q\<rfloor> + 1"
  by (simp add: roundTiesToEven_def Let_def)

lemma roundTiesToEven_of_int [simp]: "roundTiesToEven (of_int n) = n"
  by (simp add: roundTiesToEven_def)

lemma roundTiesToEven_mono:
  assumes "q \<le> r"
  shows "roundTiesToEven q \<le> roundTiesToEven r"
proof (cases "\<lfloor>q\<rfloor> = \<lfloor>r\<rfloor>")
  case True
  with assms have "q - of_int \<lfloor>q\<rfloor> \<le> r - of_int \<lfloor>r\<rfloor>" by simp
  with True show ?thesis by (auto simp: roundTiesToEven_def Let_def)
next
  case False
  with assms have "\<lfloor>q\<rfloor> < \<lfloor>r\<rfloor>" using floor_mono [OF assms] by simp
  then have "\<lfloor>q\<rfloor> + 1 \<le> \<lfloor>r\<rfloor>" by simp
  with roundTiesToEven_bounds [of q] roundTiesToEven_bounds [of r] show ?thesis by linarith
qed

lemma roundTiesToEven_nonneg: "0 \<le> q \<Longrightarrow> 0 \<le> roundTiesToEven q"
  using roundTiesToEven_mono [of 0 q] roundTiesToEven_of_int [of 0] by simp

lemma two_powi_mult: "(2::rat) powi a * 2 powi b = 2 powi (a + b)"
  by (simp add: power_int_add)

lemma two_powi_divide: "(2::rat) powi a / 2 powi b = 2 powi (a - b)"
  by (simp add: power_int_diff)

lemma fl_pos:
  "0 < x \<Longrightarrow> fl x = of_int (roundTiesToEven (x / 2 powi (max (binade x) (- 1022) - 52)))
     * 2 powi (max (binade x) (- 1022) - 52)"
  by (simp add: fl_def Let_def)

lemma fl_nonneg: "0 \<le> x \<Longrightarrow> 0 \<le> fl x"
proof (cases "x = 0")
  case True
  then show ?thesis by (simp add: fl_def)
next
  case False
  assume "0 \<le> x"
  with False have x: "0 < x" by simp
  have "0 \<le> x / 2 powi (max (binade x) (- 1022) - 52)" using x by simp
  then have "0 \<le> roundTiesToEven (x / 2 powi (max (binade x) (- 1022) - 52))"
    by (rule roundTiesToEven_nonneg)
  then show ?thesis by (simp add: fl_pos [OF x])
qed

lemma fl_mono_pos:
  assumes "0 < x" and "x \<le> y"
  shows "fl x \<le> fl y"
proof -
  from assms have y: "0 < y" by simp
  define ex where "ex = max (binade x) (- 1022)"
  define ey where "ey = max (binade y) (- 1022)"
  have fx: "fl x = of_int (roundTiesToEven (x / 2 powi (ex - 52))) * 2 powi (ex - 52)"
    unfolding ex_def by (rule fl_pos [OF assms(1)])
  have fy: "fl y = of_int (roundTiesToEven (y / 2 powi (ey - 52))) * 2 powi (ey - 52)"
    unfolding ey_def by (rule fl_pos [OF y])
  have le: "ex \<le> ey" unfolding ex_def ey_def using binade_mono [OF assms] by simp
  show ?thesis
  proof (cases "ex = ey")
    case True
    have "x / 2 powi (ey - 52) \<le> y / 2 powi (ey - 52)"
      using assms(2) by (simp add: divide_right_mono)
    then have "roundTiesToEven (x / 2 powi (ey - 52)) \<le> roundTiesToEven (y / 2 powi (ey - 52))"
      by (rule roundTiesToEven_mono)
    then have "(of_int (roundTiesToEven (x / 2 powi (ey - 52))) :: rat) * 2 powi (ey - 52)
        \<le> of_int (roundTiesToEven (y / 2 powi (ey - 52))) * 2 powi (ey - 52)"
      by (intro mult_right_mono) simp_all
    then show ?thesis by (simp add: fx fy True)
  next
    case False
    with le have lt: "ex < ey" by simp
    then have by_eq: "binade y = ey" unfolding ey_def ex_def by linarith
    have bx: "binade x \<le> ex" unfolding ex_def by simp
    have "x < 2 powi (binade x + 1)" using binade_bounds [OF assms(1)] by simp
    also have "\<dots> \<le> 2 powi (ex + 1)" using bx by (intro power_int_increasing) simp_all
    finally have "x < 2 powi (ex + 1)" .
    then have "x / 2 powi (ex - 52) \<le> 2 powi (ex + 1) / 2 powi (ex - 52)"
      by (intro divide_right_mono) simp_all
    also have "(2::rat) powi (ex + 1) / 2 powi (ex - 52) = 2 powi 53"
    proof -
      have "ex + 1 - (ex - 52) = 53" by simp
      then show ?thesis by (simp only: two_powi_divide)
    qed
    also have "(2::rat) powi 53 = of_int (2 ^ 53)"
      by (simp only: power_int_numeral of_int_power of_int_numeral)
    finally have "roundTiesToEven (x / 2 powi (ex - 52)) \<le> roundTiesToEven (of_int (2 ^ 53))"
      by (rule roundTiesToEven_mono)
    then have "roundTiesToEven (x / 2 powi (ex - 52)) \<le> 2 ^ 53" by (simp only: roundTiesToEven_of_int)
    then have "(of_int (roundTiesToEven (x / 2 powi (ex - 52))) :: rat) \<le> of_int (2 ^ 53)"
      by (simp only: of_int_le_iff)
    then have "fl x \<le> of_int (2 ^ 53) * 2 powi (ex - 52)"
      unfolding fx by (intro mult_right_mono) simp_all
    also have "(of_int (2 ^ 53) :: rat) * 2 powi (ex - 52) = 2 powi 53 * 2 powi (ex - 52)"
      by (simp only: power_int_numeral of_int_power of_int_numeral)
    also have "\<dots> = 2 powi (ex + 1)"
    proof -
      have "53 + (ex - 52) = ex + 1" by simp
      then show ?thesis by (simp only: two_powi_mult)
    qed
    also have "\<dots> \<le> 2 powi ey" using lt by (intro power_int_increasing) simp_all
    finally have upper: "fl x \<le> 2 powi ey" .
    have "(2::rat) powi ey \<le> y" using binade_bounds [OF y] by (simp add: by_eq)
    then have "2 powi ey / 2 powi (ey - 52) \<le> y / 2 powi (ey - 52)"
      by (intro divide_right_mono) simp_all
    moreover have "(2::rat) powi ey / 2 powi (ey - 52) = 2 powi 52"
    proof -
      have "ey - (ey - 52) = 52" by simp
      then show ?thesis by (simp only: two_powi_divide)
    qed
    moreover have "(2::rat) powi 52 = of_int (2 ^ 52)"
      by (simp only: power_int_numeral of_int_power of_int_numeral)
    ultimately have "roundTiesToEven (of_int (2 ^ 52)) \<le> roundTiesToEven (y / 2 powi (ey - 52))"
      by (intro roundTiesToEven_mono) simp
    then have "2 ^ 52 \<le> roundTiesToEven (y / 2 powi (ey - 52))" by (simp only: roundTiesToEven_of_int)
    then have "(of_int (2 ^ 52) :: rat) \<le> of_int (roundTiesToEven (y / 2 powi (ey - 52)))"
      by (simp only: of_int_le_iff)
    then have "of_int (2 ^ 52) * 2 powi (ey - 52) \<le> fl y"
      unfolding fy by (intro mult_right_mono) simp_all
    moreover have "(of_int (2 ^ 52) :: rat) * 2 powi (ey - 52) = 2 powi 52 * 2 powi (ey - 52)"
      by (simp only: power_int_numeral of_int_power of_int_numeral)
    moreover have "(2::rat) powi 52 * 2 powi (ey - 52) = 2 powi ey"
    proof -
      have "52 + (ey - 52) = ey" by simp
      then show ?thesis by (simp only: two_powi_mult)
    qed
    ultimately have "2 powi ey \<le> fl y" by simp
    with upper show ?thesis by simp
  qed
qed

lemma fl_mono:
  assumes "0 \<le> x" and "x \<le> y"
  shows "fl x \<le> fl y"
proof (cases "x = 0")
  case True
  with assms fl_nonneg [of y] show ?thesis by (simp add: fl_def)
next
  case False
  with assms(1) have "0 < x" by simp
  then show ?thesis using assms(2) by (rule fl_mono_pos)
qed

subsection \<open>Exact results and the rounding error below 128\<close>

lemma roundTiesToEven_error: "\<bar>of_int (roundTiesToEven q) - q\<bar> \<le> 1 / 2"
proof -
  have "of_int \<lfloor>q\<rfloor> \<le> q" "q < of_int \<lfloor>q\<rfloor> + 1" by linarith+
  then show ?thesis by (auto simp: roundTiesToEven_def Let_def)
qed

lemma ulp_exponent_below_128:
  assumes "0 < x" and "x < 128"
  shows "max (binade x) (- 1022) - 52 \<le> - 46"
proof -
  have "binade x < 7"
  proof (rule ccontr)
    assume "\<not> binade x < 7"
    then have "7 \<le> binade x" by simp
    then have "(2::rat) powi 7 \<le> 2 powi binade x" by (rule power_int_increasing) simp
    also have "\<dots> \<le> x" using binade_bounds [OF assms(1)] by simp
    finally show False using assms(2) by simp
  qed
  then show ?thesis by simp
qed

lemma fl_error:
  assumes "0 \<le> x" and "x < 128"
  shows "\<bar>fl x - x\<bar> \<le> 1 / 2 ^ 47"
proof (cases "x = 0")
  case True
  then show ?thesis by (simp add: fl_def)
next
  case False
  with assms(1) have x: "0 < x" by simp
  define p where "p = max (binade x) (- 1022) - 52"
  define q where "q = x / 2 powi p"
  have p: "p \<le> - 46" unfolding p_def using x assms(2) by (rule ulp_exponent_below_128)
  have pos: "(0::rat) < 2 powi p" by simp
  have xq: "x = q * 2 powi p" unfolding q_def by simp
  have "fl x = of_int (roundTiesToEven q) * 2 powi p"
    unfolding q_def p_def by (rule fl_pos [OF x])
  then have "fl x - x = (of_int (roundTiesToEven q) - q) * 2 powi p"
    using xq by (simp add: algebra_simps)
  then have "\<bar>fl x - x\<bar> = \<bar>of_int (roundTiesToEven q) - q\<bar> * 2 powi p"
    using pos by (simp add: abs_mult)
  also have "\<dots> \<le> 1 / 2 * 2 powi p"
    using roundTiesToEven_error [of q] pos by (intro mult_right_mono) simp_all
  also have "\<dots> \<le> 1 / 2 * 2 powi (- 46)"
    using p by (intro mult_left_mono power_int_increasing) simp_all
  also have "\<dots> = 1 / 2 ^ 47" by (simp add: power_int_minus_divide)
  finally show ?thesis .
qed

lemma fl_quarters:
  assumes "0 \<le> n" and "n < 512"
  shows "fl (of_int n / 4) = of_int n / 4"
proof (cases "n = 0")
  case True
  then show ?thesis by (simp add: fl_def)
next
  case False
  with assms(1) have n: "0 < n" by simp
  define x :: rat where "x = of_int n / 4"
  have x: "0 < x" using n by (simp add: x_def)
  have "x < 128" using assms(2) by (simp add: x_def)
  define p where "p = max (binade x) (- 1022) - 52"
  have p: "p \<le> - 46" unfolding p_def using x \<open>x < 128\<close> by (rule ulp_exponent_below_128)
  define k where "k = nat (- p - 2)"
  have k: "- p - 2 = int k" using p by (simp add: k_def)
  have "(4::rat) = 2 powi 2" by simp
  then have "x / 2 powi p = of_int n * (2 powi (- p) / 2 powi 2)"
    by (simp add: x_def power_int_minus field_simps)
  also have "(2::rat) powi (- p) / 2 powi 2 = 2 powi (- p - 2)"
    by (rule two_powi_divide)
  also have "(2::rat) powi (- p - 2) = of_int (2 ^ k)"
    unfolding k by simp
  finally have q: "x / 2 powi p = of_int (n * 2 ^ k)" by simp
  have "fl x = of_int (roundTiesToEven (x / 2 powi p)) * 2 powi p"
    unfolding p_def by (rule fl_pos [OF x])
  also have "\<dots> = of_int (n * 2 ^ k) * 2 powi p"
    by (simp only: q roundTiesToEven_of_int)
  also have "\<dots> = x / 2 powi p * 2 powi p" by (simp only: q)
  also have "\<dots> = x" by simp
  finally show ?thesis by (simp add: x_def)
qed

subsection \<open>The rate of the fact-density check in exact arithmetic\<close>

lemma rate_mono:
  assumes "0 \<le> x" and "x \<le> y"
  shows "fl (fl x * 100) \<le> fl (fl y * 100)"
proof -
  have "0 \<le> fl x" using assms(1) by (rule fl_nonneg)
  moreover have "fl x \<le> fl y" using assms by (rule fl_mono)
  ultimately show ?thesis by (intro fl_mono) simp_all
qed

lemma rate_values:
  "fl (fl (1 / 50) * 100) = 2" "fl (fl (1 / 25) * 100) = 4" "fl (fl (1 / 10) * 100) = 10"
  "fl (fl ((2 ^ 52 - 1) / (50 * 2 ^ 52)) * 100) < 2"
  "fl (fl ((2 ^ 52 - 1) / (25 * 2 ^ 52)) * 100) < 4"
  "10 < fl (fl ((2 ^ 52 + 1) / (10 * 2 ^ 52)) * 100)"
  by code_simp+

lemma quotient_below:
  fixes F W k :: nat
  assumes "0 < W" and "W \<le> 2 ^ 52" and "k * F < W" and "0 < k"
  shows "(of_nat F :: rat) / of_nat W \<le> (2 ^ 52 - 1) / (of_nat k * 2 ^ 52)"
proof -
  from assms(3) have "k * F + 1 \<le> W" by simp
  then have "(of_nat (k * F + 1) :: rat) \<le> of_nat W" by (simp only: of_nat_le_iff)
  then have 1: "of_nat k * of_nat F \<le> (of_nat W :: rat) - 1" by simp
  have W: "(0::rat) < of_nat W" using assms(1) by simp
  have k: "(0::rat) < of_nat k" using assms(4) by simp
  have "(of_nat W :: rat) \<le> of_nat (2 ^ 52)" using assms(2) by (simp only: of_nat_le_iff)
  then have 2: "(of_nat W :: rat) \<le> 2 ^ 52" by simp
  have "(of_nat F :: rat) / of_nat W \<le> (of_nat W - 1) / (of_nat k * of_nat W)"
    using 1 W k by (simp add: field_simps)
  also have "\<dots> = 1 / of_nat k - 1 / (of_nat k * of_nat W)"
    using W k by (simp add: field_simps)
  also have "\<dots> \<le> 1 / of_nat k - 1 / (of_nat k * 2 ^ 52)"
    using W k 2 by (simp add: field_simps)
  also have "\<dots> = (2 ^ 52 - 1) / (of_nat k * 2 ^ 52)"
    using k by (simp add: field_simps)
  finally show ?thesis .
qed

lemma quotient_above:
  fixes F W k :: nat
  assumes "0 < W" and "W \<le> 2 ^ 52" and "W < k * F" and "0 < k"
  shows "(2 ^ 52 + 1) / (of_nat k * 2 ^ 52) \<le> (of_nat F :: rat) / of_nat W"
proof -
  from assms(3) have "W + 1 \<le> k * F" by simp
  then have "(of_nat (W + 1) :: rat) \<le> of_nat (k * F)" by (simp only: of_nat_le_iff)
  then have 1: "(of_nat W :: rat) + 1 \<le> of_nat k * of_nat F" by simp
  have W: "(0::rat) < of_nat W" using assms(1) by simp
  have k: "(0::rat) < of_nat k" using assms(4) by simp
  have "(of_nat W :: rat) \<le> of_nat (2 ^ 52)" using assms(2) by (simp only: of_nat_le_iff)
  then have 2: "(of_nat W :: rat) \<le> 2 ^ 52" by simp
  have "(2 ^ 52 + 1) / (of_nat k * 2 ^ 52) = 1 / of_nat k + 1 / (of_nat k * (2 ^ 52 :: rat))"
    using k by (simp add: field_simps)
  also have "\<dots> \<le> 1 / of_nat k + 1 / (of_nat k * of_nat W)"
    using W k 2 by (simp add: field_simps)
  also have "\<dots> = (of_nat W + 1) / (of_nat k * of_nat W)"
    using W k by (simp add: field_simps)
  also have "\<dots> = ((of_nat W + 1) / of_nat k) / of_nat W"
    by simp
  also have "\<dots> \<le> (of_nat F :: rat) / of_nat W"
  proof (intro divide_right_mono)
    show "((of_nat W :: rat) + 1) / of_nat k \<le> of_nat F"
      using 1 k by (simp add: pos_divide_le_eq mult.commute)
    show "(0::rat) \<le> of_nat W" by simp
  qed
  finally show ?thesis .
qed

lemma factsPerHundred_thresholds:
  assumes "0 < W" and "W \<le> 2 ^ 52"
  shows "(factsPerHundred F W < 2 \<longleftrightarrow> 100 * F < 2 * W) \<and>
         (factsPerHundred F W < 4 \<longleftrightarrow> 100 * F < 4 * W) \<and>
         (10 < factsPerHundred F W \<longleftrightarrow> 10 * W < 100 * F)"
proof -
  let ?x = "(of_nat F :: rat) / of_nat W"
  have r: "factsPerHundred F W = fl (fl ?x * 100)"
    by (simp add: factsPerHundred_def js_mul_def js_div_def)
  have x0: "0 \<le> ?x" by simp
  have W: "(0::rat) < of_nat W" using assms(1) by simp
  have lt2: "fl (fl ?x * 100) < 2" if "50 * F < W"
  proof -
    have "?x \<le> (2 ^ 52 - 1) / (of_nat 50 * 2 ^ 52)"
      using assms that by (intro quotient_below) simp_all
    then have "fl (fl ?x * 100) \<le> fl (fl ((2 ^ 52 - 1) / (50 * 2 ^ 52)) * 100)"
      using rate_mono [OF x0] by simp
    with rate_values(4) show ?thesis by simp
  qed
  have ge2: "2 \<le> fl (fl ?x * 100)" if "\<not> 50 * F < W"
  proof -
    from that have "W \<le> 50 * F" by simp
    then have "(of_nat W :: rat) \<le> of_nat (50 * F)" by (simp only: of_nat_le_iff)
    then have "1 / 50 \<le> ?x" using W by (simp add: field_simps)
    then have "fl (fl (1 / 50) * 100) \<le> fl (fl ?x * 100)" by (intro rate_mono) simp_all
    then show ?thesis by (simp add: rate_values)
  qed
  have lt4: "fl (fl ?x * 100) < 4" if "25 * F < W"
  proof -
    have "?x \<le> (2 ^ 52 - 1) / (of_nat 25 * 2 ^ 52)"
      using assms that by (intro quotient_below) simp_all
    then have "fl (fl ?x * 100) \<le> fl (fl ((2 ^ 52 - 1) / (25 * 2 ^ 52)) * 100)"
      using rate_mono [OF x0] by simp
    with rate_values(5) show ?thesis by simp
  qed
  have ge4: "4 \<le> fl (fl ?x * 100)" if "\<not> 25 * F < W"
  proof -
    from that have "W \<le> 25 * F" by simp
    then have "(of_nat W :: rat) \<le> of_nat (25 * F)" by (simp only: of_nat_le_iff)
    then have "1 / 25 \<le> ?x" using W by (simp add: field_simps)
    then have "fl (fl (1 / 25) * 100) \<le> fl (fl ?x * 100)" by (intro rate_mono) simp_all
    then show ?thesis by (simp add: rate_values)
  qed
  have gt10: "10 < fl (fl ?x * 100)" if "W < 10 * F"
  proof -
    have "(2 ^ 52 + 1) / (of_nat 10 * 2 ^ 52) \<le> ?x"
      using assms that by (intro quotient_above) simp_all
    then have "fl (fl ((2 ^ 52 + 1) / (10 * 2 ^ 52)) * 100) \<le> fl (fl ?x * 100)"
      using rate_mono [of "(2 ^ 52 + 1) / (10 * 2 ^ 52)" ?x] by simp
    with rate_values(6) show ?thesis by simp
  qed
  have le10: "fl (fl ?x * 100) \<le> 10" if "\<not> W < 10 * F"
  proof -
    from that have "10 * F \<le> W" by simp
    then have "(of_nat (10 * F) :: rat) \<le> of_nat W" by (simp only: of_nat_le_iff)
    then have "?x \<le> 1 / 10" using W by (simp add: field_simps)
    then have "fl (fl ?x * 100) \<le> fl (fl (1 / 10) * 100)" using rate_mono [OF x0] by simp
    then show ?thesis by (simp add: rate_values)
  qed
  have a: "fl (fl ?x * 100) < 2 \<longleftrightarrow> 50 * F < W" using lt2 ge2 by fastforce
  have b: "fl (fl ?x * 100) < 4 \<longleftrightarrow> 25 * F < W" using lt4 ge4 by fastforce
  have c: "10 < fl (fl ?x * 100) \<longleftrightarrow> W < 10 * F" using gt10 le10 by fastforce
  from a b c show ?thesis unfolding r by simp
qed

subsection \<open>Issue types of the checks\<close>

lemma type_issue [simp]: "type (issue t s m f) = t"
  by (simp add: issue_def)

lemma severity_issue [simp]: "severity (issue t s m f) = s"
  by (simp add: issue_def)

lemma all_of_type_simps [simp]:
  "all_of_type t []"
  "all_of_type t (x # xs) = (type x = t \<and> all_of_type t xs)"
  "all_of_type t (xs @ ys) = (all_of_type t xs \<and> all_of_type t ys)"
  by (simp_all add: all_of_type_def)

lemma checkAnswerFrontLoading_type: "all_of_type AnswerPlacement (snd (checkAnswerFrontLoading rt doc))"
  by (simp add: checkAnswerFrontLoading_def Let_def)

lemma checkFactDensity_type: "all_of_type FactDensity (snd (checkFactDensity rt doc))"
  by (simp add: checkFactDensity_def Let_def split: prod.split)

lemma skipStep_type:
  "all_of_type HeadingStructure iss \<Longrightarrow>
   all_of_type HeadingStructure (fst (snd (foldl skipStep (l, iss, sc) els)))"
  by (induction els arbitrary: l iss sc) (simp_all add: skipStep_def skippedLevelIssue_def Let_def)

lemma emptyStep_type:
  "all_of_type HeadingStructure iss \<Longrightarrow>
   all_of_type HeadingStructure (fst (foldl emptyStep (iss, sc) els))"
  by (induction els arbitrary: iss sc) (simp_all add: emptyStep_def)


lemma checkHeadingStructure_type: "all_of_type HeadingStructure (snd (checkHeadingStructure doc))"
  unfolding checkHeadingStructure_def Let_def case_prod_beta snd_conv
  by (intro emptyStep_type skipStep_type) (simp add: missingH1Issue_def h3WithoutH2Issue_def)

lemma checkEEAT_type: "all_of_type EEAT (snd (checkEEAT rt doc))"
  unfolding checkEEAT_def Let_def case_prod_beta snd_conv
  by simp

lemma snippableStep_type:
  "all_of_type Snippability iss \<Longrightarrow>
   all_of_type Snippability (snd (snd (foldl snippableStep (c, n, iss) els)))"
  by (induction els arbitrary: c n iss) (simp_all add: snippableStep_def Let_def)

lemma checkSnippability_type: "all_of_type Snippability (snd (checkSnippability doc))"
  unfolding checkSnippability_def Let_def case_prod_beta
  by (simp add: snippableStep_type)

lemma schemaStep_type:
  "all_of_type Schema iss \<Longrightarrow>
   all_of_type Schema (snd (foldl (schemaStep rt) (v, iss) els))"
  by (induction els arbitrary: v iss)
     (simp_all add: schemaStep_def parseErrorIssue_def split: option.split)

lemma checkSchemaCoverage_type: "all_of_type Schema (snd (checkSchemaCoverage rt doc))"
  unfolding checkSchemaCoverage_def Let_def case_prod_beta
  by (simp add: schemaStep_type)

lemma filter_other_type:
  "all_of_type t xs \<Longrightarrow> t \<noteq> u \<Longrightarrow> filter (\<lambda>a. type a = u) xs = []"
  by (induction xs) auto

lemma filter_sort_key_type:
  "filter (\<lambda>a. type a = u) (sort_key f xs) = [] \<longleftrightarrow> filter (\<lambda>a. type a = u) xs = []"
  by (simp add: filter_empty_conv)


lemma breakdown_analyze: "breakdown (fst (analyze rt this h)) = fst (runChecks rt this (load rt h))"
  by (simp add: analyze_def Let_def case_prod_beta)

lemma issues_analyze:
  "issues (fst (analyze rt this h)) =
     sort_key (\<lambda>a. order (severity a)) (snd (runChecks rt this (load rt h)))"
  by (simp add: analyze_def Let_def case_prod_beta)

lemma overallScore_analyze:
  "overallScore (fst (analyze rt this h)) = Math_round (weightedSum (fst (runChecks rt this (load rt h))))"
  by (simp add: analyze_def Let_def case_prod_beta)

lemma snd_runChecks:
  "snd (runChecks rt this doc) =
     (if checkAnswerPlacement_option (options this) then snd (checkAnswerFrontLoading rt doc) else []) @
     (if checkFactDensity_option (options this) then snd (checkFactDensity rt doc) else []) @
     (if checkHeadingStructure_option (options this) then snd (checkHeadingStructure doc) else []) @
     (if checkEEAT_option (options this) then snd (checkEEAT rt doc) else []) @
     (if checkSnippability_option (options this) then snd (checkSnippability doc) else []) @
     (if checkSchema_option (options this) then snd (checkSchemaCoverage rt doc) else [])"
  by (simp add: runChecks_def Let_def case_prod_beta)

lemma fst_runChecks:
  "fst (runChecks rt this doc) =
     \<lparr>answerFrontLoading =
        (if checkAnswerPlacement_option (options this) then fst (checkAnswerFrontLoading rt doc) else 100),
      factDensity =
        (if checkFactDensity_option (options this) then fst (checkFactDensity rt doc) else 100),
      headingStructure =
        (if checkHeadingStructure_option (options this) then fst (checkHeadingStructure doc) else 100),
      eeatSignals = (if checkEEAT_option (options this) then fst (checkEEAT rt doc) else 100),
      snippability = (if checkSnippability_option (options this) then fst (checkSnippability doc) else 100),
      schemaCoverage =
        (if checkSchema_option (options this) then fst (checkSchemaCoverage rt doc) else 100)\<rparr>"
  by (simp add: runChecks_def Let_def case_prod_beta)

lemma order_inj: "order s = order t \<longleftrightarrow> s = t"
  by (cases s; cases t) simp_all

lemma sorted_map_Cons:
  fixes f :: "'a \<Rightarrow> nat"
  shows "sorted (map f (a # ys)) \<Longrightarrow> (\<forall>b\<in>set ys. f a \<le> f b) \<and> sorted (map f ys)"
  by simp

text \<open>A list in non-decreasing order of rank is its high-severity issues, then its
  medium-severity issues, then its low-severity issues.\<close>

lemma sorted_by_order_partition:
  assumes "sorted (map (\<lambda>a. order (severity a)) ys)"
  shows "ys = filter (\<lambda>a. severity a = High) ys @ filter (\<lambda>a. severity a = Medium) ys @
              filter (\<lambda>a. severity a = Low) ys"
  using assms
proof (induction ys)
  case Nil
  then show ?case by simp
next
  case (Cons a ys)
  from sorted_map_Cons [OF Cons.prems]
  have all: "\<forall>b\<in>set ys. order (severity a) \<le> order (severity b)"
    and tail: "sorted (map (\<lambda>a. order (severity a)) ys)" by blast+
  from tail have IH: "ys = filter (\<lambda>a. severity a = High) ys @ filter (\<lambda>a. severity a = Medium) ys @
              filter (\<lambda>a. severity a = Low) ys" by (rule Cons.IH)
  show ?case
  proof (cases "severity a")
    case High
    then show ?thesis using IH by simp
  next
    case Medium
    have "severity b \<noteq> High" if "b \<in> set ys" for b
      using bspec [OF all that] Medium by (cases "severity b") simp_all
    then have none: "filter (\<lambda>a. severity a = High) ys = []" by (simp add: filter_empty_conv)
    show ?thesis using IH Medium by (simp add: none)
  next
    case Low
    have "severity b = Low" if "b \<in> set ys" for b
      using bspec [OF all that] Low by (cases "severity b") simp_all
    then have none: "filter (\<lambda>a. severity a = High) ys = []" "filter (\<lambda>a. severity a = Medium) ys = []"
      by (auto simp add: filter_empty_conv)
    show ?thesis using IH Low by (simp add: none)
  qed
qed

text \<open>The comparator at work on four issues that arrive in the order low, high, medium,
  high.\<close>

lemma sort_by_severity_example:
  "sort_key (\<lambda>a. order (severity a))
     [issue Snippability Low m1 f1, issue Schema High m2 f2, issue EEAT Medium m3 f3,
      issue AnswerPlacement High m4 f4] =
     [issue Schema High m2 f2, issue AnswerPlacement High m4 f4, issue EEAT Medium m3 f3,
      issue Snippability Low m1 f1]"
  by (simp add: issue_def)

text \<open>
  Claim C3.  The comparator ranks high as 0, medium as 1 and low as 2.  The issues of the
  result are in non-decreasing order of that rank: they are the high-severity issues,
  then the medium-severity issues, then the low-severity issues, and within each
  severity they stand in the order in which the enabled checks produced them, the checks
  running in the order answer placement, fact density, heading structure, E-E-A-T,
  snippability, schema.
\<close>

theorem analyze_issues_sorted_stable:
  "(let collected =
      (if checkAnswerPlacement_option (options this)
       then snd (checkAnswerFrontLoading rt (load rt h)) else []) @
      (if checkFactDensity_option (options this)
       then snd (checkFactDensity rt (load rt h)) else []) @
      (if checkHeadingStructure_option (options this)
       then snd (checkHeadingStructure (load rt h)) else []) @
      (if checkEEAT_option (options this)
       then snd (checkEEAT rt (load rt h)) else []) @
      (if checkSnippability_option (options this)
       then snd (checkSnippability (load rt h)) else []) @
      (if checkSchema_option (options this)
       then snd (checkSchemaCoverage rt (load rt h)) else [])
    in order High = 0 \<and> order Medium = 1 \<and> order Low = 2 \<and>
       sorted (map (\<lambda>a. order (severity a)) (issues (fst (analyze rt this h)))) \<and>
       issues (fst (analyze rt this h)) =
         filter (\<lambda>a. severity a = High) collected @
         filter (\<lambda>a. severity a = Medium) collected @
         filter (\<lambda>a. severity a = Low) collected \<and>
       filter (\<lambda>a. severity a = s) (issues (fst (analyze rt this h))) =
         filter (\<lambda>a. severity a = s) collected)"
proof -
  let ?key = "\<lambda>a. order (severity a)"
  let ?collected = "snd (runChecks rt this (load rt h))"
  let ?sorted = "issues (fst (analyze rt this h))"
  have stable: "filter (\<lambda>a. severity a = t) ?sorted = filter (\<lambda>a. severity a = t) ?collected" for t
  proof -
    have eq: "(\<lambda>a. severity a = t) = (\<lambda>a. ?key a = order t)"
      by (simp add: order_inj)
    have "filter (\<lambda>a. ?key a = order t) (sort_key ?key ?collected) =
          filter (\<lambda>a. ?key a = order t) ?collected"
      by (rule sort_key_stable)
    then show ?thesis by (simp only: eq issues_analyze)
  qed
  have sorted: "sorted (map ?key ?sorted)"
    by (simp only: issues_analyze sorted_sort_key)
  have "?sorted = filter (\<lambda>a. severity a = High) ?sorted @
      filter (\<lambda>a. severity a = Medium) ?sorted @ filter (\<lambda>a. severity a = Low) ?sorted"
    using sorted by (rule sorted_by_order_partition)
  then have parts: "?sorted = filter (\<lambda>a. severity a = High) ?collected @
      filter (\<lambda>a. severity a = Medium) ?collected @ filter (\<lambda>a. severity a = Low) ?collected"
    by (simp only: stable)
  have ranks: "order High = 0 \<and> order Medium = 1 \<and> order Low = 2" by simp
  from ranks sorted parts stable [of s] show ?thesis
    unfolding Let_def snd_runChecks [symmetric] by blast
qed

subsection \<open>Disabled checks\<close>

lemma all_of_type_if [simp]:
  "all_of_type t (if c then xs else []) = (c \<longrightarrow> all_of_type t xs)"
  by simp

lemma filter_type_if:
  "all_of_type t xs \<Longrightarrow> filter (\<lambda>a. type a = u) (if c then xs else []) =
     (if c \<and> u = t then filter (\<lambda>a. type a = u) xs else [])"
  by (auto simp: filter_other_type)

lemma filter_type_collected:
  "filter (\<lambda>a. type a = u) (snd (runChecks rt this doc)) =
     (if checkAnswerPlacement_option (options this) \<and> u = AnswerPlacement
      then filter (\<lambda>a. type a = u) (snd (checkAnswerFrontLoading rt doc)) else []) @
     (if checkFactDensity_option (options this) \<and> u = FactDensity
      then filter (\<lambda>a. type a = u) (snd (checkFactDensity rt doc)) else []) @
     (if checkHeadingStructure_option (options this) \<and> u = HeadingStructure
      then filter (\<lambda>a. type a = u) (snd (checkHeadingStructure doc)) else []) @
     (if checkEEAT_option (options this) \<and> u = EEAT
      then filter (\<lambda>a. type a = u) (snd (checkEEAT rt doc)) else []) @
     (if checkSnippability_option (options this) \<and> u = Snippability
      then filter (\<lambda>a. type a = u) (snd (checkSnippability doc)) else []) @
     (if checkSchema_option (options this) \<and> u = Schema
      then filter (\<lambda>a. type a = u) (snd (checkSchemaCoverage rt doc)) else [])"
  unfolding snd_runChecks filter_append
  by (simp only: filter_type_if [OF checkAnswerFrontLoading_type]
        filter_type_if [OF checkFactDensity_type] filter_type_if [OF checkHeadingStructure_type]
        filter_type_if [OF checkEEAT_type] filter_type_if [OF checkSnippability_type]
        filter_type_if [OF checkSchemaCoverage_type])

text \<open>
  Claim C7.  If a check is disabled in the configuration of the analyzer, its entry of
  the breakdown is exactly 100 and the issues of the result contain no issue whose type
  is that check's type; this holds for each of the six checks, for every input.
\<close>

theorem disabled_check_scores_100:
  "(\<not> checkAnswerPlacement_option (options this) \<longrightarrow>
      answerFrontLoading (breakdown (fst (analyze rt this h))) = 100 \<and>
      filter (\<lambda>a. type a = AnswerPlacement) (issues (fst (analyze rt this h))) = []) \<and>
   (\<not> checkFactDensity_option (options this) \<longrightarrow>
      factDensity (breakdown (fst (analyze rt this h))) = 100 \<and>
      filter (\<lambda>a. type a = FactDensity) (issues (fst (analyze rt this h))) = []) \<and>
   (\<not> checkHeadingStructure_option (options this) \<longrightarrow>
      headingStructure (breakdown (fst (analyze rt this h))) = 100 \<and>
      filter (\<lambda>a. type a = HeadingStructure) (issues (fst (analyze rt this h))) = []) \<and>
   (\<not> checkEEAT_option (options this) \<longrightarrow>
      eeatSignals (breakdown (fst (analyze rt this h))) = 100 \<and>
      filter (\<lambda>a. type a = EEAT) (issues (fst (analyze rt this h))) = []) \<and>
   (\<not> checkSnippability_option (options this) \<longrightarrow>
      snippability (breakdown (fst (analyze rt this h))) = 100 \<and>
      filter (\<lambda>a. type a = Snippability) (issues (fst (analyze rt this h))) = []) \<and>
   (\<not> checkSchema_option (options this) \<longrightarrow>
      schemaCoverage (breakdown (fst (analyze rt this h))) = 100 \<and>
      filter (\<lambda>a. type a = Schema) (issues (fst (analyze rt this h))) = [])"
proof -
  have scores:
    "\<not> checkAnswerPlacement_option (options this) \<Longrightarrow>
       answerFrontLoading (breakdown (fst (analyze rt this h))) = 100"
    "\<not> checkFactDensity_option (options this) \<Longrightarrow>
       factDensity (breakdown (fst (analyze rt this h))) = 100"
    "\<not> checkHeadingStructure_option (options this) \<Longrightarrow>
       headingStructure (breakdown (fst (analyze rt this h))) = 100"
    "\<not> checkEEAT_option (options this) \<Longrightarrow>
       eeatSignals (breakdown (fst (analyze rt this h))) = 100"
    "\<not> checkSnippability_option (options this) \<Longrightarrow>
       snippability (breakdown (fst (analyze rt this h))) = 100"
    "\<not> checkSchema_option (options this) \<Longrightarrow>
       schemaCoverage (breakdown (fst (analyze rt this h))) = 100"
    by (simp_all add: breakdown_analyze fst_runChecks)
  have none: "filter (\<lambda>a. type a = u) (issues (fst (analyze rt this h))) = [] \<longleftrightarrow>
              filter (\<lambda>a. type a = u) (snd (runChecks rt this (load rt h))) = []" for u
    by (simp only: issues_analyze filter_sort_key_type)
  have issues_none:
    "\<not> checkAnswerPlacement_option (options this) \<Longrightarrow>
       filter (\<lambda>a. type a = AnswerPlacement) (issues (fst (analyze rt this h))) = []"
    "\<not> checkFactDensity_option (options this) \<Longrightarrow>
       filter (\<lambda>a. type a = FactDensity) (issues (fst (analyze rt this h))) = []"
    "\<not> checkHeadingStructure_option (options this) \<Longrightarrow>
       filter (\<lambda>a. type a = HeadingStructure) (issues (fst (analyze rt this h))) = []"
    "\<not> checkEEAT_option (options this) \<Longrightarrow>
       filter (\<lambda>a. type a = EEAT) (issues (fst (analyze rt this h))) = []"
    "\<not> checkSnippability_option (options this) \<Longrightarrow>
       filter (\<lambda>a. type a = Snippability) (issues (fst (analyze rt this h))) = []"
    "\<not> checkSchema_option (options this) \<Longrightarrow>
       filter (\<lambda>a. type a = Schema) (issues (fst (analyze rt this h))) = []"
    unfolding none filter_type_collected by simp_all
  from scores issues_none show ?thesis by blast
qed

theorem disabled_check_scores_100_witness:
  "answerFrontLoading (breakdown (fst (analyze plainRuntime \<lparr>options = allDisabled\<rparr> []))) = 100 \<and>
   factDensity (breakdown (fst (analyze plainRuntime \<lparr>options = allDisabled\<rparr> []))) = 100 \<and>
   headingStructure (breakdown (fst (analyze plainRuntime \<lparr>options = allDisabled\<rparr> []))) = 100 \<and>
   eeatSignals (breakdown (fst (analyze plainRuntime \<lparr>options = allDisabled\<rparr> []))) = 100 \<and>
   snippability (breakdown (fst (analyze plainRuntime \<lparr>options = allDisabled\<rparr> []))) = 100 \<and>
   schemaCoverage (breakdown (fst (analyze plainRuntime \<lparr>options = allDisabled\<rparr> []))) = 100 \<and>
   issues (fst (analyze plainRuntime \<lparr>options = allDisabled\<rparr> [])) = []"
proof -
  have "issues (fst (analyze plainRuntime \<lparr>options = allDisabled\<rparr> [])) = []"
    by (simp add: issues_analyze snd_runChecks allDisabled_def)
  with disabled_check_scores_100 [of "\<lparr>options = allDisabled\<rparr>" plainRuntime "[]"]
  show ?thesis by (simp add: allDisabled_def)
qed

subsection \<open>Heading structure\<close>

lemma heading_tags_distinct:
  "js ''h1'' \<noteq> js ''h2''" "js ''h1'' \<noteq> js ''h3''" "js ''h1'' \<noteq> js ''h4''"
  "js ''h2'' \<noteq> js ''h3''" "js ''h2'' \<noteq> js ''h4''" "js ''h3'' \<noteq> js ''h4''"
  by (simp_all add: js_def)

lemma tag_h1: "tag ''h1'' n \<Longrightarrow> \<not> tag ''h2'' n \<and> \<not> tag ''h3'' n \<and> \<not> tag ''h4'' n"
  using heading_tags_distinct by (auto simp: tag_def split: node.splits)

lemma tag_h3: "tag ''h3'' n \<Longrightarrow> \<not> tag ''h1'' n \<and> \<not> tag ''h2'' n \<and> \<not> tag ''h4'' n"
  using heading_tags_distinct by (auto simp: tag_def split: node.splits)

lemma tag_h4: "tag ''h4'' n \<Longrightarrow> \<not> tag ''h1'' n \<and> \<not> tag ''h2'' n \<and> \<not> tag ''h3'' n"
  using heading_tags_distinct by (auto simp: tag_def split: node.splits)

lemma headingLevel_h1: "tag ''h1'' n \<Longrightarrow> headingLevel n = 1"
  by (simp add: headingLevel_def)

lemma headingLevel_h3: "tag ''h3'' n \<Longrightarrow> headingLevel n = 3"
  by (simp add: headingLevel_def tag_h3)

lemma headingLevel_h4: "tag ''h4'' n \<Longrightarrow> headingLevel n = 4"
  by (simp add: headingLevel_def tag_h4)

lemma matches_filter:
  assumes "\<And>n. P n \<Longrightarrow> Q n"
  shows "matches P doc = filter (\<lambda>(n, sibs). P n) (matches Q doc)"
  using assms by (induction Q doc rule: matches.induct) auto

lemma skipStep_skip:
  "headingLevel (fst el) > l + 1 \<Longrightarrow>
   skipStep (l, iss, sc) el =
     (headingLevel (fst el), iss @ [skippedLevelIssue l (headingLevel (fst el))], sc - 10)"
  by (simp add: skipStep_def Let_def)

lemma skipStep_keep:
  "\<not> headingLevel (fst el) > l + 1 \<Longrightarrow>
   skipStep (l, iss, sc) el = (headingLevel (fst el), iss, sc)"
  by (simp add: skipStep_def Let_def)

lemma skipStep_grows:
  "set iss \<subseteq> set (fst (snd (foldl skipStep (l, iss, sc) els))) \<and>
   snd (snd (foldl skipStep (l, iss, sc) els)) \<le> sc"
proof (induction els arbitrary: l iss sc)
  case Nil
  then show ?case by simp
next
  case (Cons el els)
  show ?case
  proof (cases "headingLevel (fst el) > l + 1")
    case True
    then have "skipStep (l, iss, sc) el =
        (headingLevel (fst el), iss @ [skippedLevelIssue l (headingLevel (fst el))], sc - 10)"
      by (rule skipStep_skip)
    with Cons.IH [where l = "headingLevel (fst el)"
        and iss = "iss @ [skippedLevelIssue l (headingLevel (fst el))]" and sc = "sc - 10"]
    show ?thesis by auto
  next
    case False
    then have "skipStep (l, iss, sc) el = (headingLevel (fst el), iss, sc)"
      by (rule skipStep_keep)
    with Cons.IH [where l = "headingLevel (fst el)" and iss = iss and sc = sc] show ?thesis by simp
  qed
qed

lemma emptyStep_grows:
  "set iss \<subseteq> set (fst (foldl emptyStep (iss, sc) els)) \<and>
   snd (foldl emptyStep (iss, sc) els) \<le> sc"
proof (induction els arbitrary: iss sc)
  case Nil
  then show ?case by simp
next
  case (Cons el els)
  show ?case
  proof (cases "trim (text_of [el]) = []")
    case True
    with Cons.IH [where iss = "iss @ [issue HeadingStructure Medium (js ''Empty heading tag found'')
                          (js ''Remove or fill empty heading tags'')]" and sc = "sc - 10"]
    show ?thesis by (auto simp: emptyStep_def)
  next
    case False
    with Cons.IH [where iss = iss and sc = sc] show ?thesis by (simp add: emptyStep_def)
  qed
qed

text \<open>The check as the composition of its four phases.\<close>

lemma checkHeadingStructure_phases:
  fixes doc
  defines "p1 \<equiv> (if length (matches (tag ''h1'') doc) = 0 then ([missingH1Issue], 100 - 40)
             else if length (matches (tag ''h1'') doc) > 1
             then ([issue HeadingStructure Medium
                      (js ''Multiple H1 tags found ('' @ show_nat (length (matches (tag ''h1'') doc)) @ js '')'')
                      (js ''Use only one H1 per page. Demote additional H1s to H2'')], 100 - 20)
             else ([], 100::int))"
  defines "p2 \<equiv> (if length (matches (tag ''h3'') doc) > 0 \<and> length (matches (tag ''h2'') doc) = 0
             then (fst p1 @ [h3WithoutH2Issue], snd p1 - 20) else p1)"
  defines "p3 \<equiv> foldl skipStep (1, fst p2, snd p2) (matches headingSelector doc)"
  defines "p4 \<equiv> foldl emptyStep (fst (snd p3), snd (snd p3)) (matches upperHeadingSelector doc)"
  shows "checkHeadingStructure doc = (max 0 (snd p4), fst p4)"
  unfolding checkHeadingStructure_def Let_def case_prod_beta p4_def p3_def p2_def p1_def
  by (simp add: if_distrib [of fst] if_distrib [of snd] cong: if_cong)

lemma show_nat_digit: "n < 10 \<Longrightarrow> show_nat n = [of_nat (48 + n)]"
  by (simp add: show_nat.simps)

lemma skippedLevelIssue_fields:
  "type (skippedLevelIssue l k) = HeadingStructure"
  "severity (skippedLevelIssue l k) = Low"
  "message (skippedLevelIssue l k) =
     js ''Heading level skipped: H'' @ show_nat l @ js '' '' @ arrow @ js '' H'' @ show_nat k"
  by (simp_all add: skippedLevelIssue_def issue_def)

text \<open>
  Claim C10.  The walk over the headings of levels 1 to 4 starts with the previous level
  set to 1.  So if the first such heading of a document, in document order, is of level
  3 or 4, the walk appends at that heading a low-severity issue whose message names H1
  and that level and takes 10 from the score, although no level-1 heading precedes it;
  the issue is among the issues that the check returns, and the check's score is at
  most 90.
\<close>

theorem first_heading_of_level_3_or_4_is_flagged:
  assumes "matches headingSelector doc = (el, sibs) # rest"
    and "tag ''h3'' el \<or> tag ''h4'' el"
  shows "foldl skipStep (1, iss, score) (matches headingSelector doc) =
           foldl skipStep
             (headingLevel el, iss @ [skippedLevelIssue 1 (headingLevel el)], score - 10) rest \<and>
         skippedLevelIssue 1 (headingLevel el) \<in> set (snd (checkHeadingStructure doc)) \<and>
         severity (skippedLevelIssue 1 (headingLevel el)) = Low \<and>
         message (skippedLevelIssue 1 (headingLevel el)) =
           js ''Heading level skipped: H1 '' @ arrow @ js '' H''
             @ (if tag ''h3'' el then js ''3'' else js ''4'') \<and>
         fst (checkHeadingStructure doc) \<le> 90"
proof -
  let ?k = "headingLevel el"
  from assms(2) have k: "?k = 3 \<or> ?k = 4"
    using headingLevel_h3 headingLevel_h4 by blast
  then have gt: "?k > 1 + 1" by auto
  have step: "skipStep (1, i, s) (el, sibs) = (?k, i @ [skippedLevelIssue 1 ?k], s - 10)" for i s
    using skipStep_skip [where l = 1 and el = "(el, sibs)" and iss = i and sc = s] gt by simp
  have walk: "foldl skipStep (1, i, s) (matches headingSelector doc) =
      foldl skipStep (?k, i @ [skippedLevelIssue 1 ?k], s - 10) rest" for i s
    by (simp only: assms(1) foldl_Cons step)
  have msg: "message (skippedLevelIssue 1 ?k) =
      js ''Heading level skipped: H1 '' @ arrow @ js '' H''
        @ (if tag ''h3'' el then js ''3'' else js ''4'')"
  proof (cases "tag ''h3'' el")
    case True
    then show ?thesis
      by (simp add: headingLevel_h3 skippedLevelIssue_fields show_nat_digit js_def)
  next
    case False
    with assms(2) have "tag ''h4'' el" by simp
    with False show ?thesis
      by (simp add: headingLevel_h4 skippedLevelIssue_fields show_nat_digit js_def)
  qed
  define p1 where "p1 = (if length (matches (tag ''h1'') doc) = 0 then ([missingH1Issue], 100 - 40)
             else if length (matches (tag ''h1'') doc) > 1
             then ([issue HeadingStructure Medium
                      (js ''Multiple H1 tags found ('' @ show_nat (length (matches (tag ''h1'') doc)) @ js '')'')
                      (js ''Use only one H1 per page. Demote additional H1s to H2'')], 100 - 20)
             else ([], 100::int))"
  define p2 where "p2 = (if length (matches (tag ''h3'') doc) > 0 \<and> length (matches (tag ''h2'') doc) = 0
             then (fst p1 @ [h3WithoutH2Issue], snd p1 - 20) else p1)"
  define p3 where "p3 = foldl skipStep (1, fst p2, snd p2) (matches headingSelector doc)"
  define p4 where "p4 = foldl emptyStep (fst (snd p3), snd (snd p3)) (matches upperHeadingSelector doc)"
  have res: "checkHeadingStructure doc = (max 0 (snd p4), fst p4)"
    unfolding p4_def p3_def p2_def p1_def by (rule checkHeadingStructure_phases)
  have "snd p1 \<le> 100" by (simp add: p1_def)
  then have s2: "snd p2 \<le> 100" by (simp add: p2_def)
  have p3': "p3 = foldl skipStep (?k, fst p2 @ [skippedLevelIssue 1 ?k], snd p2 - 10) rest"
    unfolding p3_def by (rule walk)
  have in3: "skippedLevelIssue 1 ?k \<in> set (fst (snd p3))"
    using skipStep_grows [of "fst p2 @ [skippedLevelIssue 1 ?k]" ?k "snd p2 - 10" rest]
    unfolding p3' by auto
  have s3: "snd (snd p3) \<le> snd p2 - 10"
    using skipStep_grows [of "fst p2 @ [skippedLevelIssue 1 ?k]" ?k "snd p2 - 10" rest]
    unfolding p3' by simp
  have in4: "skippedLevelIssue 1 ?k \<in> set (fst p4)"
    using emptyStep_grows [of "fst (snd p3)" "snd (snd p3)" "matches upperHeadingSelector doc"] in3
    unfolding p4_def by auto
  have s4: "snd p4 \<le> snd (snd p3)"
    using emptyStep_grows [of "fst (snd p3)" "snd (snd p3)" "matches upperHeadingSelector doc"]
    unfolding p4_def by simp
  from s2 s3 s4 have "max 0 (snd p4) \<le> 90" by simp
  with walk in4 msg res show ?thesis
    by (simp add: skippedLevelIssue_fields)
qed

lemma matches_poorDocument:
  "matches headingSelector poorDocument =
     [(Element (js ''h3'') [] [Text (js ''Some Subheading'')],
       [Element (js ''p'') [] [Text (js ''Welcome to our amazing platform!'')]])]"
  by (simp add: poorDocument_def headingSelector_def tag_def js_def)

theorem first_heading_of_level_3_or_4_is_flagged_witness:
  "skippedLevelIssue 1 3 \<in> set (snd (checkHeadingStructure poorDocument)) \<and>
   fst (checkHeadingStructure poorDocument) \<le> 90"
proof -
  let ?h3 = "Element (js ''h3'') [] [Text (js ''Some Subheading'')]"
  have t: "tag ''h3'' ?h3 \<or> tag ''h4'' ?h3" by (simp add: tag_def)
  have l: "headingLevel ?h3 = 3" by (rule headingLevel_h3) (simp add: tag_def)
  from first_heading_of_level_3_or_4_is_flagged [OF matches_poorDocument t] l
  show ?thesis by simp
qed

lemma text_of_single [simp]: "text_of [(n, sibs)] = textContent n"
  by (simp add: text_of_def)

lemma matches_headings:
  "matches (tag ''h1'') doc = filter (\<lambda>(n, sibs). tag ''h1'' n) (matches headingSelector doc)"
  "matches (tag ''h2'') doc = filter (\<lambda>(n, sibs). tag ''h2'' n) (matches headingSelector doc)"
  "matches (tag ''h3'') doc = filter (\<lambda>(n, sibs). tag ''h3'' n) (matches headingSelector doc)"
  by (rule matches_filter, simp add: headingSelector_def)+

lemma matches_upperHeadings:
  "matches upperHeadingSelector doc =
     filter (\<lambda>(n, sibs). upperHeadingSelector n) (matches headingSelector doc)"
  by (rule matches_filter) (auto simp add: headingSelector_def upperHeadingSelector_def)

lemma h3WithoutH2Issue_fields:
  "type h3WithoutH2Issue = HeadingStructure"
  "severity h3WithoutH2Issue = Medium"
  "message h3WithoutH2Issue = js ''H3 tags used without any H2 tags''"
  by (simp_all add: h3WithoutH2Issue_def issue_def)

text \<open>
  Claim C6.  For a document whose headings of levels 1 to 4 are, in document order, one
  level-1 heading and then one level-3 heading, both with non-empty text, the
  heading-structure check returns exactly two issues: the medium-severity issue for H3
  tags without H2 tags (penalty 20) and the low-severity issue for the skipped level
  from H1 to H3 (penalty 10); the score is 100 - 20 - 10 = 70.
\<close>

theorem h1_then_h3_scores_70:
  assumes "matches headingSelector doc = [(a, sa), (b, sb)]"
    and "tag ''h1'' a" and "tag ''h3'' b"
    and "trim (textContent a) \<noteq> []" and "trim (textContent b) \<noteq> []"
  shows "checkHeadingStructure doc = (100 - 20 - 10, [h3WithoutH2Issue, skippedLevelIssue 1 3]) \<and>
         severity h3WithoutH2Issue = Medium \<and>
         message h3WithoutH2Issue = js ''H3 tags used without any H2 tags'' \<and>
         severity (skippedLevelIssue 1 3) = Low \<and>
         message (skippedLevelIssue 1 3) = js ''Heading level skipped: H1 '' @ arrow @ js '' H3''"
proof -
  note na = tag_h1 [OF assms(2)] and nb = tag_h3 [OF assms(3)]
  have h1s: "matches (tag ''h1'') doc = [(a, sa)]"
    using assms(2) nb by (simp add: matches_headings(1) assms(1))
  have h2s: "matches (tag ''h2'') doc = []"
    using na nb by (simp add: matches_headings(2) assms(1))
  have h3s: "matches (tag ''h3'') doc = [(b, sb)]"
    using assms(3) na by (simp add: matches_headings(3) assms(1))
  have upper: "matches upperHeadingSelector doc = [(a, sa), (b, sb)]"
    using assms(2,3) by (simp add: matches_upperHeadings assms(1) upperHeadingSelector_def)
  have la: "headingLevel a = 1" by (rule headingLevel_h1 [OF assms(2)])
  have lb: "headingLevel b = 3" by (rule headingLevel_h3 [OF assms(3)])
  have "checkHeadingStructure doc = (70, [h3WithoutH2Issue, skippedLevelIssue 1 3])"
    using assms(4,5)
    by (simp add: checkHeadingStructure_phases h1s h2s h3s upper assms(1) skipStep_def Let_def
          la lb emptyStep_def)
  then show ?thesis
    by (simp add: h3WithoutH2Issue_fields skippedLevelIssue_fields show_nat_digit js_def)
qed

lemma matches_skippedDocument:
  "matches headingSelector skippedDocument =
     [(Element (js ''h1'') [] [Text (js ''Title'')],
       [Element (js ''h3'') [] [Text (js ''Skipped H2'')],
        Element (js ''p'') [] [Text (js ''Content here that is long enough to be meaningful.'')]]),
      (Element (js ''h3'') [] [Text (js ''Skipped H2'')],
       [Element (js ''p'') [] [Text (js ''Content here that is long enough to be meaningful.'')]])]"
  by (simp add: skippedDocument_def headingSelector_def tag_def js_def)

theorem h1_then_h3_scores_70_witness:
  "checkHeadingStructure skippedDocument = (70, [h3WithoutH2Issue, skippedLevelIssue 1 3])"
proof -
  have 1: "tag ''h1'' (Element (js ''h1'') [] [Text (js ''Title'')])"
    and 2: "tag ''h3'' (Element (js ''h3'') [] [Text (js ''Skipped H2'')])"
    by (simp_all add: tag_def)
  have 3: "trim (textContent (Element (js ''h1'') [] [Text (js ''Title'')])) \<noteq> []"
    and 4: "trim (textContent (Element (js ''h3'') [] [Text (js ''Skipped H2'')])) \<noteq> []"
    by (simp_all add: trim_def js_def isWhiteSpace_def)
  from h1_then_h3_scores_70 [OF matches_skippedDocument 1 2 3 4]
  show ?thesis by simp
qed

subsection \<open>Attribute values compared without regard to case\<close>

lemma schemaSelector_mixed_case:
  "schemaSelector plainRuntime
     (Element (js ''script'') [(js ''type'', js ''Application/LD+JSON'')] [])"
  by (simp add: schemaSelector_def tag_def attrEqIgnoreCase_def attr_def plainRuntime_def
        asciiLowerCase_def js_def)

lemma authorSelector_mixed_case:
  "authorSelector plainRuntime (Element (js ''a'') [(js ''rel'', js ''Author'')] [])"
  by (simp add: authorSelector_def attrEqIgnoreCase_def attr_def plainRuntime_def
        asciiLowerCase_def js_def)

subsection \<open>The empty document\<close>

lemma matches_emptyDocument:
  "matches (tag ''h1'') emptyDocument = []"
  "matches (tag ''h2'') emptyDocument = []"
  "matches (tag ''h3'') emptyDocument = []"
  "matches (tag ''p'') emptyDocument = []"
  "matches headingSelector emptyDocument = []"
  "matches upperHeadingSelector emptyDocument = []"
  "matches subheadingSelector emptyDocument = []"
  "matches (schemaSelector rt) emptyDocument = []"
  by (simp_all add: emptyDocument_def tag_def js_def headingSelector_def upperHeadingSelector_def
        subheadingSelector_def schemaSelector_def)

lemma matches_emptyDocument_attr:
  "matches (authorSelector rt) emptyDocument = []"
  "matches orgSelector emptyDocument = []"
  "matches siteNameSelector emptyDocument = []"
  "matches contactSelector emptyDocument = []"
  by (simp_all add: emptyDocument_def tag_def js_def authorSelector_def orgSelector_def
        siteNameSelector_def contactSelector_def attrEq_def attrContains_def attrStartsWith_def
        attrEqIgnoreCase_def hasClass_def attr_def)

lemma checkHeadingStructure_emptyDocument:
  "checkHeadingStructure emptyDocument = (60, [missingH1Issue])"
  by (simp add: checkHeadingStructure_phases matches_emptyDocument)

lemma checkFactDensity_emptyDocument:
  "fst (checkFactDensity rt emptyDocument) = 0"
  "map severity (snd (checkFactDensity rt emptyDocument)) = [High]"
  by (simp_all add: checkFactDensity_def matches_emptyDocument)

lemma checkSchemaCoverage_emptyDocument:
  "fst (checkSchemaCoverage rt emptyDocument) = 0"
  "map severity (snd (checkSchemaCoverage rt emptyDocument)) = [High]"
  by (simp_all add: checkSchemaCoverage_def matches_emptyDocument)

lemma checkAnswerFrontLoading_emptyDocument:
  "fst (checkAnswerFrontLoading rt emptyDocument) = 0"
  by (simp add: checkAnswerFrontLoading_def matches_emptyDocument first_def)

lemma checkSnippability_emptyDocument:
  "fst (checkSnippability emptyDocument) = 30"
  by (simp add: checkSnippability_def matches_emptyDocument)

lemma checkEEAT_emptyDocument:
  "fst (checkEEAT rt emptyDocument) \<in> {0, 25, 50}"
  by (simp add: checkEEAT_def matches_emptyDocument_attr Let_def)

lemma overallScore_emptyDocument:
  "Math_round (weightedSum \<lparr>answerFrontLoading = 0, factDensity = 0, headingStructure = 60,
     eeatSignals = 0, snippability = 30, schemaCoverage = 0\<rparr>) = 12"
  "Math_round (weightedSum \<lparr>answerFrontLoading = 0, factDensity = 0, headingStructure = 60,
     eeatSignals = 25, snippability = 30, schemaCoverage = 0\<rparr>) = 17"
  "Math_round (weightedSum \<lparr>answerFrontLoading = 0, factDensity = 0, headingStructure = 60,
     eeatSignals = 50, snippability = 30, schemaCoverage = 0\<rparr>) = 22"
  by code_simp+

lemma filter_type_sort_key:
  "filter (\<lambda>a. type a = u) (sort_key f xs) = sort_key f (filter (\<lambda>a. type a = u) xs)"
  by (rule filter_sort)

lemma filter_own_type: "all_of_type t xs \<Longrightarrow> filter (\<lambda>a. type a = t) xs = xs"
  by (induction xs) auto

lemma map_severity_sort_key_single:
  "map severity xs = [s] \<Longrightarrow> map severity (sort_key f xs) = [s]"
  by (cases xs) auto

text \<open>
  Claim C9.  With all checks enabled, \<open>analyze\<close> on the empty string (which the parser
  turns into the empty document) returns a result: the model has no error value
  because the source has no path that throws out of \<open>analyze\<close>.  In that result the
  heading-structure score is 100 - 40 = 60, the schema score is 0 and the fact-density
  score is 0; each of the three checks contributes exactly one issue, of high severity;
  the other scores are 0, 30 and at most 50, and the overall score is 12, 17 or 22.
\<close>

theorem analyze_empty_string:
  assumes "load rt [] = emptyDocument"
    and "options this = DEFAULT_OPTIONS"
  shows "headingStructure (breakdown (fst (analyze rt this []))) = 100 - 40 \<and>
         schemaCoverage (breakdown (fst (analyze rt this []))) = 0 \<and>
         factDensity (breakdown (fst (analyze rt this []))) = 0 \<and>
         filter (\<lambda>a. type a = HeadingStructure) (issues (fst (analyze rt this []))) = [missingH1Issue] \<and>
         map severity (filter (\<lambda>a. type a = Schema) (issues (fst (analyze rt this [])))) = [High] \<and>
         map severity (filter (\<lambda>a. type a = FactDensity) (issues (fst (analyze rt this [])))) = [High] \<and>
         answerFrontLoading (breakdown (fst (analyze rt this []))) = 0 \<and>
         snippability (breakdown (fst (analyze rt this []))) = 30 \<and>
         eeatSignals (breakdown (fst (analyze rt this []))) \<in> {0, 25, 50} \<and>
         overallScore (fst (analyze rt this [])) \<in> {12, 17, 22}"
proof -
  let ?r = "fst (analyze rt this [])"
  have on: "checkAnswerPlacement_option (options this)" "checkFactDensity_option (options this)"
    "checkHeadingStructure_option (options this)" "checkEEAT_option (options this)"
    "checkSnippability_option (options this)" "checkSchema_option (options this)"
    by (simp_all add: assms(2) DEFAULT_OPTIONS_def)
  have b: "breakdown ?r =
      \<lparr>answerFrontLoading = 0, factDensity = 0, headingStructure = 60,
       eeatSignals = fst (checkEEAT rt emptyDocument), snippability = 30, schemaCoverage = 0\<rparr>"
    by (simp add: breakdown_analyze fst_runChecks on assms(1) checkHeadingStructure_emptyDocument
          checkFactDensity_emptyDocument checkSchemaCoverage_emptyDocument
          checkAnswerFrontLoading_emptyDocument checkSnippability_emptyDocument)
  have hs: "filter (\<lambda>a. type a = HeadingStructure) (issues ?r) = [missingH1Issue]"
    by (simp add: issues_analyze filter_type_sort_key filter_type_collected on assms(1)
          checkHeadingStructure_emptyDocument missingH1Issue_def)
  have sc: "map severity (filter (\<lambda>a. type a = Schema) (issues ?r)) = [High]"
    by (simp add: issues_analyze filter_type_sort_key filter_type_collected on assms(1)
          filter_own_type [OF checkSchemaCoverage_type] map_severity_sort_key_single
          checkSchemaCoverage_emptyDocument)
  have fd: "map severity (filter (\<lambda>a. type a = FactDensity) (issues ?r)) = [High]"
    by (simp add: issues_analyze filter_type_sort_key filter_type_collected on assms(1)
          filter_own_type [OF checkFactDensity_type] map_severity_sort_key_single
          checkFactDensity_emptyDocument)
  have e: "fst (checkEEAT rt emptyDocument) \<in> {0, 25, 50}"
    by (rule checkEEAT_emptyDocument)
  have "overallScore ?r = Math_round (weightedSum (breakdown ?r))"
    by (simp only: overallScore_analyze breakdown_analyze)
  with e have o: "overallScore ?r \<in> {12, 17, 22}"
    unfolding b using overallScore_emptyDocument by auto
  from b hs sc fd e o show ?thesis by simp
qed

theorem analyze_empty_string_witness:
  "headingStructure (breakdown (fst (analyze plainRuntime \<lparr>options = DEFAULT_OPTIONS\<rparr> []))) = 60 \<and>
   schemaCoverage (breakdown (fst (analyze plainRuntime \<lparr>options = DEFAULT_OPTIONS\<rparr> []))) = 0 \<and>
   factDensity (breakdown (fst (analyze plainRuntime \<lparr>options = DEFAULT_OPTIONS\<rparr> []))) = 0"
proof -
  have 1: "load plainRuntime [] = emptyDocument" by (simp add: plainRuntime_def)
  have 2: "options \<lparr>options = DEFAULT_OPTIONS\<rparr> = DEFAULT_OPTIONS" by simp
  from analyze_empty_string [OF 1 2] show ?thesis by simp
qed

subsection \<open>Answer placement\<close>

lemma filter_tag_followingElements:
  "map fst (filter (\<lambda>(m, r). tag t m) (followingElements sibs)) = filter (tag t) sibs"
proof (induction sibs)
  case Nil
  then show ?case by simp
next
  case (Cons n ns)
  then show ?case by (cases n) (simp_all add: tag_def)
qed

text \<open>
  Claim C4, as amended.  When a level-1 heading exists and no main or content container
  is present, the paragraph that is inspected is the first \<open>p\<close> element among the
  siblings that follow the first level-1 heading; if no sibling \<open>p\<close> follows, no
  paragraph is inspected and the inspected text is empty.
\<close>

theorem firstP_is_first_sibling_paragraph:
  assumes "matches (tag ''h1'') doc = (h, sibs) # rest"
    and "matches mainSelector doc = []"
  shows "map fst (firstP doc) = take 1 (filter (tag ''p'') sibs) \<and>
         text_of (firstP doc) = concat (map textContent (take 1 (filter (tag ''p'') sibs)))"
proof -
  let ?sel = "take 1 (filter (\<lambda>(m, r). tag ''p'' m) (followingElements sibs))"
  have a: "firstP doc = ?sel"
    by (simp add: firstP_def first_def nextAll_def assms)
  have b: "map fst ?sel = take 1 (filter (tag ''p'') sibs)"
    by (simp only: take_map [symmetric] filter_tag_followingElements)
  have c: "text_of ?sel = concat (map textContent (map fst ?sel))"
    by (simp only: text_of_def map_map comp_def case_prod_unfold)
  show ?thesis
    unfolding a by (simp only: c b simp_thms)
qed

lemma matches_nestedDocument:
  "matches (tag ''h1'') nestedDocument =
     [(Element (js ''h1'') [] [Text (js ''What is Acme?'')],
       [Element (js ''div'') [] [nestedParagraph]])]"
  "matches mainSelector nestedDocument = []"
  by (simp_all add: nestedDocument_def nestedParagraph_def tag_def js_def mainSelector_def
        attrEq_def hasClass_def hasId_def attr_def)

theorem firstP_is_first_sibling_paragraph_witness:
  "map fst (firstP nestedDocument) = [] \<and> text_of (firstP nestedDocument) = []"
  using firstP_is_first_sibling_paragraph [OF matches_nestedDocument]
  by (simp add: tag_def js_def text_of_def)

theorem firstP_document_order_counterexample:
  "matches (tag ''h1'') nestedDocument \<noteq> [] \<and>
   matches mainSelector nestedDocument = [] \<and>
   spec_firstParagraphAfterHeading nestedDocument = [nestedParagraph] \<and>
   map fst (firstP nestedDocument) = [] \<and>
   30 \<le> length (trim (textContent nestedParagraph)) \<and>
   fst (checkAnswerFrontLoading plainRuntime nestedDocument) = 20"
proof -
  have 1: "spec_firstParagraphAfterHeading nestedDocument = [nestedParagraph]"
    by (simp add: spec_firstParagraphAfterHeading_def nestedDocument_def nestedParagraph_def
          tag_def js_def)
  have 2: "firstP nestedDocument = []"
    by (simp add: firstP_def first_def nextAll_def matches_nestedDocument tag_def js_def)
  have 3: "30 \<le> length (trim (textContent nestedParagraph))"
    by (simp add: nestedParagraph_def trim_def js_def isWhiteSpace_def)
  have 4: "fst (checkAnswerFrontLoading plainRuntime nestedDocument) = 20"
    by (simp add: checkAnswerFrontLoading_def first_def matches_nestedDocument 2 text_of_def trim_def)
  from 1 2 3 4 show ?thesis by (simp add: matches_nestedDocument)
qed

subsection \<open>Fact density\<close>

lemma text_of_one: "text_of [el] = textContent (fst el)"
  by (cases el) (simp add: text_of_def)

lemma foldl_countParagraph:
  "foldl (countParagraph rt) (w, f) ps =
     (w + sum_list (map (\<lambda>el. wordCount (textContent (fst el))) ps),
      f + sum_list (map (\<lambda>el. matchCount rt FACT_PATTERN (textContent (fst el))) ps))"
  by (induction ps arbitrary: w f) (simp_all add: countParagraph_def text_of_one Let_def)

lemma factsPerHundred_12_200: "factsPerHundred 12 200 = 6"
  by code_simp

text \<open>
  Claim C5.  Let \<open>W\<close> be the number of words and \<open>F\<close> the number of fact tokens, both
  summed over all paragraph elements of the document, and \<open>r\<close> the rate
  \<open>F / W * 100\<close> as the program computes it.  The fact-density check scores 0 with one
  high-severity issue if \<open>W = 0\<close>; otherwise 25 with one high-severity issue if
  \<open>r < 2\<close>, else 60 with one medium-severity issue if \<open>r < 4\<close>, else 75 with one
  low-severity issue if \<open>r > 10\<close>, else 95 with no issue.  As long as \<open>W\<close> is at most
  \<open>2^52\<close>, the comparisons of the computed rate with 2, 4 and 10 come out as those of
  the exact quotient \<open>100 * F / W\<close>.  For \<open>W = 200\<close> and \<open>F = 12\<close> the rate is 6 and
  the check returns 95 and no issue.
\<close>

theorem checkFactDensity_piecewise:
  "(let W = sum_list (map (\<lambda>el. wordCount (textContent (fst el))) (matches (tag ''p'') doc));
        F = sum_list (map (\<lambda>el. matchCount rt FACT_PATTERN (textContent (fst el)))
              (matches (tag ''p'') doc));
        r = factsPerHundred F W;
        res = checkFactDensity rt doc
    in (fst res, map severity (snd res)) =
         (if W = 0 then (0, [High])
          else if r < 2 then (25, [High])
          else if r < 4 then (60, [Medium])
          else if 10 < r then (75, [Low])
          else (95, [])) \<and>
       (0 < W \<and> W \<le> 2 ^ 52 \<longrightarrow>
          (r < 2 \<longleftrightarrow> 100 * F < 2 * W) \<and>
          (r < 4 \<longleftrightarrow> 100 * F < 4 * W) \<and>
          (10 < r \<longleftrightarrow> 10 * W < 100 * F)) \<and>
       (W = 200 \<and> F = 12 \<longrightarrow> r = 6 \<and> res = (95, [])))"
proof -
  define W where "W = sum_list (map (\<lambda>el. wordCount (textContent (fst el))) (matches (tag ''p'') doc))"
  define F where "F = sum_list (map (\<lambda>el. matchCount rt FACT_PATTERN (textContent (fst el)))
              (matches (tag ''p'') doc))"
  have counts: "foldl (countParagraph rt) (0, 0) (matches (tag ''p'') doc) = (W, F)"
    by (simp add: foldl_countParagraph W_def F_def)
  have cascade: "(fst (checkFactDensity rt doc), map severity (snd (checkFactDensity rt doc))) =
         (if W = 0 then (0, [High])
          else if factsPerHundred F W < 2 then (25, [High])
          else if factsPerHundred F W < 4 then (60, [Medium])
          else if 10 < factsPerHundred F W then (75, [Low])
          else (95, []))"
    by (simp add: checkFactDensity_def counts Let_def)
  have sweet: "checkFactDensity rt doc = (95, [])" if "W = 200" "F = 12"
    using that by (simp add: checkFactDensity_def counts Let_def factsPerHundred_12_200)
  have exact: "(factsPerHundred F W < 2 \<longleftrightarrow> 100 * F < 2 * W) \<and>
         (factsPerHundred F W < 4 \<longleftrightarrow> 100 * F < 4 * W) \<and>
         (10 < factsPerHundred F W \<longleftrightarrow> 10 * W < 100 * F)" if "0 < W" "W \<le> 2 ^ 52"
    using that by (rule factsPerHundred_thresholds)
  from cascade sweet exact show ?thesis
    unfolding Let_def W_def [symmetric] F_def [symmetric]
    by (simp add: factsPerHundred_12_200)
qed

lemma wordCount_hundredWords: "wordCount hundredWords = 100"
  by code_simp

lemma sevens_hundredWords: "length (filter (\<lambda>c. c = 0x37) hundredWords) = 6"
  by code_simp

lemma matches_factDocument:
  "matches (tag ''p'') factDocument =
     [(Element (js ''p'') [] [Text hundredWords], [Element (js ''p'') [] [Text hundredWords]]),
      (Element (js ''p'') [] [Text hundredWords], [])]"
  by (simp add: factDocument_def tag_def js_def)

theorem checkFactDensity_piecewise_witness:
  "checkFactDensity sevenRuntime factDocument = (95, []) \<and>
   \<not> factsPerHundred 12 200 < 2 \<and> \<not> factsPerHundred 12 200 < 4 \<and>
   \<not> 10 < factsPerHundred 12 200"
proof -
  have W: "sum_list (map (\<lambda>el. wordCount (textContent (fst el))) (matches (tag ''p'') factDocument)) = 200"
    by (simp add: matches_factDocument wordCount_hundredWords)
  have F: "sum_list (map (\<lambda>el. matchCount sevenRuntime FACT_PATTERN (textContent (fst el)))
              (matches (tag ''p'') factDocument)) = 12"
    by (simp add: matches_factDocument sevenRuntime_def sevens_hundredWords)
  from checkFactDensity_piecewise [of factDocument sevenRuntime] W F
  show ?thesis by (simp add: Let_def)
qed

subsection \<open>Ranges of the scores\<close>

lemma fl_values:
  "fl 1 = 1" "fl 100 = 100" "fl 25 = 25" "fl 40 = 40" "fl 55 = 55" "fl 75 = 75" "fl 85 = 85"
  "fl (100 * d025) = 25" "fl (100 * d015) = 15" "fl (100 * d020) = 20" "fl (100 * d010) = 10"
  by code_simp+

lemma Math_round_range: "0 \<le> x \<Longrightarrow> x \<le> of_int n \<Longrightarrow> 0 \<le> Math_round x \<and> Math_round x \<le> n"
  unfolding Math_round_def by (simp add: floor_le_iff le_floor_iff) 

lemma snippabilityScore_range:
  assumes "s \<le> t"
  shows "0 \<le> snippabilityScore s t \<and> snippabilityScore s t \<le> 100"
proof -
  let ?q = "(of_nat s :: rat) / of_nat (max t 1)"
  have q0: "0 \<le> ?q" by simp
  have q1: "?q \<le> 1" using assms by (auto simp add: divide_le_eq max_def)
  have r0: "0 \<le> fl ?q" using q0 by (rule fl_nonneg)
  have r1: "fl ?q \<le> 1" using fl_mono [OF q0 q1] by (simp add: fl_values)
  have p0: "0 \<le> fl ?q * 100" using r0 by simp
  have p1: "fl ?q * 100 \<le> 100" using r1 by simp
  have s0: "0 \<le> fl (fl ?q * 100)" using p0 by (rule fl_nonneg)
  have s1: "fl (fl ?q * 100) \<le> 100" using fl_mono [OF p0 p1] by (simp add: fl_values)
  from Math_round_range [of "fl (fl ?q * 100)" 100] s0 s1 show ?thesis
    by (simp add: snippabilityScore_def js_mul_def js_div_def)
qed

lemma snippableStep_counts:
  "c \<le> n \<Longrightarrow> fst (foldl snippableStep (c, n, iss) els) \<le> fst (snd (foldl snippableStep (c, n, iss) els))"
  by (induction els arbitrary: c n iss) (simp_all add: snippableStep_def Let_def)

lemma checkSnippability_range:
  "0 \<le> fst (checkSnippability doc) \<and> fst (checkSnippability doc) \<le> 100"
proof (cases "length (matches subheadingSelector doc) = 0")
  case True
  then show ?thesis by (simp add: checkSnippability_def)
next
  case False
  let ?st = "foldl snippableStep (0, 0, []) (matches subheadingSelector doc)"
  have "fst ?st \<le> fst (snd ?st)" by (rule snippableStep_counts) simp
  then have "0 \<le> snippabilityScore (fst ?st) (fst (snd ?st)) \<and>
             snippabilityScore (fst ?st) (fst (snd ?st)) \<le> 100"
    by (rule snippabilityScore_range)
  with False show ?thesis by (simp add: checkSnippability_def case_prod_beta Let_def)
qed

lemma checkAnswerFrontLoading_range:
  "0 \<le> fst (checkAnswerFrontLoading rt doc) \<and> fst (checkAnswerFrontLoading rt doc) \<le> 100"
  by (simp add: checkAnswerFrontLoading_def Let_def)

lemma checkFactDensity_range:
  "0 \<le> fst (checkFactDensity rt doc) \<and> fst (checkFactDensity rt doc) \<le> 100"
  by (simp add: checkFactDensity_def Let_def case_prod_beta)

lemma checkHeadingStructure_range:
  "0 \<le> fst (checkHeadingStructure doc) \<and> fst (checkHeadingStructure doc) \<le> 100"
proof -
  define p1 where "p1 = (if length (matches (tag ''h1'') doc) = 0 then ([missingH1Issue], 100 - 40)
             else if length (matches (tag ''h1'') doc) > 1
             then ([issue HeadingStructure Medium
                      (js ''Multiple H1 tags found ('' @ show_nat (length (matches (tag ''h1'') doc)) @ js '')'')
                      (js ''Use only one H1 per page. Demote additional H1s to H2'')], 100 - 20)
             else ([], 100::int))"
  define p2 where "p2 = (if length (matches (tag ''h3'') doc) > 0 \<and> length (matches (tag ''h2'') doc) = 0
             then (fst p1 @ [h3WithoutH2Issue], snd p1 - 20) else p1)"
  define p3 where "p3 = foldl skipStep (1, fst p2, snd p2) (matches headingSelector doc)"
  define p4 where "p4 = foldl emptyStep (fst (snd p3), snd (snd p3)) (matches upperHeadingSelector doc)"
  have res: "checkHeadingStructure doc = (max 0 (snd p4), fst p4)"
    unfolding p4_def p3_def p2_def p1_def by (rule checkHeadingStructure_phases)
  have "snd p1 \<le> 100" by (simp add: p1_def)
  then have s2: "snd p2 \<le> 100" by (simp add: p2_def)
  have s3: "snd (snd p3) \<le> snd p2"
    using skipStep_grows [of "fst p2" 1 "snd p2" "matches headingSelector doc"]
    unfolding p3_def by simp
  have s4: "snd p4 \<le> snd (snd p3)"
    using emptyStep_grows [of "fst (snd p3)" "snd (snd p3)" "matches upperHeadingSelector doc"]
    unfolding p4_def by simp
  from s2 s3 s4 show ?thesis by (simp add: res)
qed

lemma checkEEAT_range:
  "0 \<le> fst (checkEEAT rt doc) \<and> fst (checkEEAT rt doc) \<le> 100"
  by (simp add: checkEEAT_def Let_def case_prod_beta)

lemma checkSchemaCoverage_range:
  "0 \<le> fst (checkSchemaCoverage rt doc) \<and> fst (checkSchemaCoverage rt doc) \<le> 100"
  by (simp add: checkSchemaCoverage_def Let_def case_prod_beta)

text \<open>
  Claim C2.  For every input text, runtime and configuration, each of the six entries of
  the breakdown of the result is an integer between 0 and 100.  In particular the score
  of the heading-structure check, from which penalties are subtracted, is never below 0,
  and the score of the E-E-A-T check, to which signals are added, is never above 100,
  for every document.
\<close>

theorem breakdown_scores_in_range:
  "0 \<le> answerFrontLoading (breakdown (fst (analyze rt this h))) \<and>
   answerFrontLoading (breakdown (fst (analyze rt this h))) \<le> 100 \<and>
   0 \<le> factDensity (breakdown (fst (analyze rt this h))) \<and>
   factDensity (breakdown (fst (analyze rt this h))) \<le> 100 \<and>
   0 \<le> headingStructure (breakdown (fst (analyze rt this h))) \<and>
   headingStructure (breakdown (fst (analyze rt this h))) \<le> 100 \<and>
   0 \<le> eeatSignals (breakdown (fst (analyze rt this h))) \<and>
   eeatSignals (breakdown (fst (analyze rt this h))) \<le> 100 \<and>
   0 \<le> snippability (breakdown (fst (analyze rt this h))) \<and>
   snippability (breakdown (fst (analyze rt this h))) \<le> 100 \<and>
   0 \<le> schemaCoverage (breakdown (fst (analyze rt this h))) \<and>
   schemaCoverage (breakdown (fst (analyze rt this h))) \<le> 100 \<and>
   0 \<le> fst (checkHeadingStructure doc) \<and>
   fst (checkEEAT rt doc) \<le> 100"
  using checkAnswerFrontLoading_range [of rt "load rt h"] checkFactDensity_range [of rt "load rt h"]
    checkHeadingStructure_range [of "load rt h"] checkEEAT_range [of rt "load rt h"]
    checkSnippability_range [of "load rt h"] checkSchemaCoverage_range [of rt "load rt h"]
    checkHeadingStructure_range [of doc] checkEEAT_range [of rt doc]
  by (simp add: breakdown_analyze fst_runChecks)

lemma runChecks_range:
  "0 \<le> answerFrontLoading (fst (runChecks rt this doc)) \<and>
   answerFrontLoading (fst (runChecks rt this doc)) \<le> 100 \<and>
   0 \<le> factDensity (fst (runChecks rt this doc)) \<and>
   factDensity (fst (runChecks rt this doc)) \<le> 100 \<and>
   0 \<le> headingStructure (fst (runChecks rt this doc)) \<and>
   headingStructure (fst (runChecks rt this doc)) \<le> 100 \<and>
   0 \<le> eeatSignals (fst (runChecks rt this doc)) \<and>
   eeatSignals (fst (runChecks rt this doc)) \<le> 100 \<and>
   0 \<le> snippability (fst (runChecks rt this doc)) \<and>
   snippability (fst (runChecks rt this doc)) \<le> 100 \<and>
   0 \<le> schemaCoverage (fst (runChecks rt this doc)) \<and>
   schemaCoverage (fst (runChecks rt this doc)) \<le> 100"
  using checkAnswerFrontLoading_range [of rt doc] checkFactDensity_range [of rt doc]
    checkHeadingStructure_range [of doc] checkEEAT_range [of rt doc]
    checkSnippability_range [of doc] checkSchemaCoverage_range [of rt doc]
  by (simp add: fst_runChecks)

subsection \<open>The overall score\<close>

lemma weightedSum_unfold:
  "weightedSum b =
     js_add (js_add (js_add (js_add (js_add (js_add 0
       (js_mul (of_int (answerFrontLoading b)) d025))
       (js_mul (of_int (factDensity b)) d015))
       (js_mul (of_int (headingStructure b)) d015))
       (js_mul (of_int (eeatSignals b)) d020))
       (js_mul (of_int (snippability b)) d010))
       (js_mul (of_int (schemaCoverage b)) d015)"
  by (simp add: weightedSum_def entries_def weights_def)

lemma weight_positive: "0 < d025" "0 < d015" "0 < d020" "0 < d010"
  by (simp_all add: d025_def d015_def d020_def d010_def)

lemma js_mul_range:
  assumes "0 \<le> s" and "s \<le> 100" and "0 < w"
  shows "0 \<le> js_mul (of_int s) w \<and> js_mul (of_int s) w \<le> fl (100 * w)"
proof -
  have 0: "0 \<le> of_int s * w" using assms by simp
  have 1: "of_int s * w \<le> 100 * w" using assms by (intro mult_right_mono) simp_all
  from fl_nonneg [OF 0] fl_mono [OF 0 1] show ?thesis by (simp add: js_mul_def)
qed

lemma js_add_range:
  assumes "0 \<le> x" and "x \<le> a" and "0 \<le> y" and "y \<le> b"
  shows "0 \<le> js_add x y \<and> js_add x y \<le> fl (a + b)"
proof -
  have 0: "0 \<le> x + y" using assms by simp
  have 1: "x + y \<le> a + b" using assms by simp
  from fl_nonneg [OF 0] fl_mono [OF 0 1] show ?thesis by (simp add: js_add_def)
qed

lemma weightedSum_range:
  assumes "0 \<le> answerFrontLoading b" "answerFrontLoading b \<le> 100"
    and "0 \<le> factDensity b" "factDensity b \<le> 100"
    and "0 \<le> headingStructure b" "headingStructure b \<le> 100"
    and "0 \<le> eeatSignals b" "eeatSignals b \<le> 100"
    and "0 \<le> snippability b" "snippability b \<le> 100"
    and "0 \<le> schemaCoverage b" "schemaCoverage b \<le> 100"
  shows "0 \<le> weightedSum b \<and> weightedSum b \<le> 100"
proof -
  let ?p1 = "js_mul (of_int (answerFrontLoading b)) d025"
  let ?p2 = "js_mul (of_int (factDensity b)) d015"
  let ?p3 = "js_mul (of_int (headingStructure b)) d015"
  let ?p4 = "js_mul (of_int (eeatSignals b)) d020"
  let ?p5 = "js_mul (of_int (snippability b)) d010"
  let ?p6 = "js_mul (of_int (schemaCoverage b)) d015"
  have p1: "0 \<le> ?p1 \<and> ?p1 \<le> 25"
    using js_mul_range [OF assms(1,2) weight_positive(1)] by (simp add: fl_values)
  have p2: "0 \<le> ?p2 \<and> ?p2 \<le> 15"
    using js_mul_range [OF assms(3,4) weight_positive(2)] by (simp add: fl_values)
  have p3: "0 \<le> ?p3 \<and> ?p3 \<le> 15"
    using js_mul_range [OF assms(5,6) weight_positive(2)] by (simp add: fl_values)
  have p4: "0 \<le> ?p4 \<and> ?p4 \<le> 20"
    using js_mul_range [OF assms(7,8) weight_positive(3)] by (simp add: fl_values)
  have p5: "0 \<le> ?p5 \<and> ?p5 \<le> 10"
    using js_mul_range [OF assms(9,10) weight_positive(4)] by (simp add: fl_values)
  have p6: "0 \<le> ?p6 \<and> ?p6 \<le> 15"
    using js_mul_range [OF assms(11,12) weight_positive(2)] by (simp add: fl_values)
  let ?s1 = "js_add 0 ?p1"
  let ?s2 = "js_add ?s1 ?p2"
  let ?s3 = "js_add ?s2 ?p3"
  let ?s4 = "js_add ?s3 ?p4"
  let ?s5 = "js_add ?s4 ?p5"
  let ?s6 = "js_add ?s5 ?p6"
  have s1: "0 \<le> ?s1 \<and> ?s1 \<le> 25"
    using js_add_range [of 0 0 ?p1 25] p1 by (simp add: fl_values)
  have s2: "0 \<le> ?s2 \<and> ?s2 \<le> 40"
    using js_add_range [of ?s1 25 ?p2 15] s1 p2 by (simp add: fl_values)
  have s3: "0 \<le> ?s3 \<and> ?s3 \<le> 55"
    using js_add_range [of ?s2 40 ?p3 15] s2 p3 by (simp add: fl_values)
  have s4: "0 \<le> ?s4 \<and> ?s4 \<le> 75"
    using js_add_range [of ?s3 55 ?p4 20] s3 p4 by (simp add: fl_values)
  have s5: "0 \<le> ?s5 \<and> ?s5 \<le> 85"
    using js_add_range [of ?s4 75 ?p5 10] s4 p5 by (simp add: fl_values)
  have s6: "0 \<le> ?s6 \<and> ?s6 \<le> 100"
    using js_add_range [of ?s5 85 ?p6 15] s5 p6 by (simp add: fl_values)
  then show ?thesis by (simp only: weightedSum_unfold)
qed

subsection \<open>The values of the scores\<close>

lemma checkAnswerFrontLoading_values:
  "fst (checkAnswerFrontLoading rt doc) \<in> {0, 20, 55, 65, 95}"
  by (simp add: checkAnswerFrontLoading_def Let_def)

lemma checkFactDensity_values:
  "fst (checkFactDensity rt doc) \<in> {0, 25, 60, 75, 95}"
  by (simp add: checkFactDensity_def Let_def case_prod_beta)

lemma checkEEAT_values:
  "fst (checkEEAT rt doc) \<in> {0, 25, 50, 75, 100}"
  by (simp add: checkEEAT_def Let_def case_prod_beta)

lemma checkSchemaCoverage_values:
  "fst (checkSchemaCoverage rt doc) \<in> {0, 10, 50, 75, 100}"
  by (simp add: checkSchemaCoverage_def Let_def case_prod_beta)

lemma skipStep_tens:
  "10 dvd sc \<Longrightarrow> 10 dvd snd (snd (foldl skipStep (l, iss, sc) els))"
  by (induction els arbitrary: l iss sc) (simp_all add: skipStep_def Let_def)

lemma emptyStep_tens:
  "10 dvd sc \<Longrightarrow> 10 dvd snd (foldl emptyStep (iss, sc) els)"
  by (induction els arbitrary: iss sc) (simp_all add: emptyStep_def)

lemma checkHeadingStructure_tens: "10 dvd fst (checkHeadingStructure doc)"
proof -
  have mx: "10 dvd max 0 x" if "10 dvd x" for x :: int
    using that by (simp add: max_def)
  show ?thesis
    unfolding checkHeadingStructure_phases fst_conv
    by (intro mx emptyStep_tens skipStep_tens) simp_all
qed

lemma checkHeadingStructure_values:
  "fst (checkHeadingStructure doc) \<in> {0, 10, 20, 30, 40, 50, 60, 70, 80, 90, 100}"
proof -
  from checkHeadingStructure_tens [of doc] obtain m where m: "fst (checkHeadingStructure doc) = 10 * m"
    by (auto simp: dvd_def)
  with checkHeadingStructure_range [of doc] have "0 \<le> m" "m \<le> 10" by simp_all
  then have "m \<in> {0, 1, 2, 3, 4, 5, 6, 7, 8, 9, 10}" by simp arith
  with m show ?thesis by auto
qed

subsection \<open>The weighted sum in exact arithmetic\<close>

lemma products_fifteen:
  "fl (0 * d015) = 0" "fl (10 * d015) = 3 / 2" "fl (20 * d015) = 3" "fl (25 * d015) = 15 / 4"
  "fl (30 * d015) = 9 / 2" "fl (40 * d015) = 6" "fl (50 * d015) = 15 / 2" "fl (60 * d015) = 9"
  "fl (70 * d015) = 21 / 2" "fl (75 * d015) = 45 / 4" "fl (80 * d015) = 12"
  "fl (90 * d015) = 27 / 2" "fl (95 * d015) = 57 / 4" "fl (100 * d015) = 15"
  by code_simp+

lemma products_twenty:
  "fl (0 * d020) = 0" "fl (25 * d020) = 5" "fl (50 * d020) = 10" "fl (75 * d020) = 15"
  "fl (100 * d020) = 20"
  by code_simp+

lemma products_ten:
  "fl (0 * d010) = 0" "fl (5 * d010) = 1 / 2" "fl (10 * d010) = 1" "fl (15 * d010) = 3 / 2"
  "fl (20 * d010) = 2" "fl (25 * d010) = 5 / 2" "fl (30 * d010) = 3" "fl (35 * d010) = 7 / 2"
  "fl (40 * d010) = 4" "fl (45 * d010) = 9 / 2" "fl (50 * d010) = 5" "fl (55 * d010) = 11 / 2"
  "fl (60 * d010) = 6" "fl (65 * d010) = 13 / 2" "fl (70 * d010) = 7" "fl (75 * d010) = 15 / 2"
  "fl (80 * d010) = 8" "fl (85 * d010) = 17 / 2" "fl (90 * d010) = 9" "fl (95 * d010) = 19 / 2"
  "fl (100 * d010) = 10"
  by code_simp+

lemma fl_zero: "fl 0 = 0"
  by (simp add: fl_def)

lemma js_mul_quarter:
  assumes "0 \<le> a" and "a \<le> 100"
  shows "js_mul (of_int a) d025 = of_int a / 4"
  using fl_quarters [of a] assms by (simp add: js_mul_def d025_def)

lemma js_mul_fifteen:
  assumes "v \<in> {0, 10, 20, 25, 30, 40, 50, 60, 70, 75, 80, 90, 95, 100}"
  shows "js_mul (of_int v) d015 = of_int (3 * (v div 5)) / 4"
  using assms unfolding js_mul_def
  by (elim insertE emptyE) (simp_all add: products_fifteen fl_zero)

lemma js_mul_twenty:
  assumes "v \<in> {0, 25, 50, 75, 100}"
  shows "js_mul (of_int v) d020 = of_int (4 * (v div 5)) / 4"
  using assms unfolding js_mul_def
  by (elim insertE emptyE) (simp_all add: products_twenty fl_zero)

lemma js_mul_ten_exact:
  assumes "0 \<le> s" and "s \<le> 100" and "5 dvd s"
  shows "js_mul (of_int s) d010 = of_int (2 * (s div 5)) / 4"
proof -
  from assms(3) obtain m where m: "s = 5 * m" by (auto simp: dvd_def)
  with assms(1,2) have "0 \<le> m" "m \<le> 20" by simp_all
  then have "m \<in> {0, 1, 2, 3, 4, 5, 6, 7, 8, 9, 10, 11, 12, 13, 14, 15, 16, 17, 18, 19, 20}"
    by simp arith
  then show ?thesis unfolding js_mul_def m
    by (elim insertE emptyE) (simp_all add: products_ten fl_zero)
qed

lemma js_mul_ten_error:
  assumes "0 \<le> s" and "s \<le> 100"
  shows "0 \<le> js_mul (of_int s) d010 \<and> \<bar>js_mul (of_int s) d010 - of_int s / 10\<bar> \<le> 1 / 2 ^ 46"
proof -
  let ?x = "of_int s * d010"
  have x0: "0 \<le> ?x" using assms(1) by (simp add: d010_def)
  have "?x \<le> 100 * d010" using assms(2) by (simp add: d010_def)
  then have x1: "?x < 128" by (simp add: d010_def)
  have e1: "\<bar>fl ?x - ?x\<bar> \<le> 1 / 2 ^ 47" using x0 x1 by (rule fl_error)
  have "?x - of_int s / 10 = of_int s * (d010 - 1 / 10)" by (simp add: algebra_simps)
  moreover have "0 \<le> d010 - 1 / 10" "d010 - 1 / 10 \<le> 1 / (100 * 2 ^ 47)" by (simp_all add: d010_def)
  ultimately have e2: "\<bar>?x - of_int s / 10\<bar> \<le> 1 / 2 ^ 47"
  proof -
    have "of_int s * (d010 - 1 / 10) \<le> 100 * (1 / (100 * 2 ^ 47))"
      using assms \<open>0 \<le> d010 - 1 / 10\<close> \<open>d010 - 1 / 10 \<le> 1 / (100 * 2 ^ 47)\<close>
      by (intro mult_mono) simp_all
    moreover have "0 \<le> of_int s * (d010 - 1 / 10)"
      using assms(1) \<open>0 \<le> d010 - 1 / 10\<close> by simp
    ultimately show ?thesis
      using \<open>?x - of_int s / 10 = of_int s * (d010 - 1 / 10)\<close> by simp
  qed
  have "\<bar>fl ?x - of_int s / 10\<bar> \<le> \<bar>fl ?x - ?x\<bar> + \<bar>?x - of_int s / 10\<bar>" by simp
  with e1 e2 have "\<bar>fl ?x - of_int s / 10\<bar> \<le> 1 / 2 ^ 47 + 1 / 2 ^ 47" by linarith
  then show ?thesis using fl_nonneg [OF x0] by (simp add: js_mul_def)
qed

lemma js_add_quarters:
  assumes "0 \<le> m" and "0 \<le> n" and "m + n < 512"
  shows "js_add (of_int m / 4) (of_int n / 4) = of_int (m + n) / 4"
proof -
  have "(of_int m :: rat) / 4 + of_int n / 4 = of_int (m + n) / 4" by simp
  moreover have "fl (of_int (m + n) / 4) = of_int (m + n) / 4"
    using assms by (intro fl_quarters) simp_all
  ultimately show ?thesis by (simp only: js_add_def)
qed

lemma Math_round_quarters: "Math_round (of_int m / 4) = (m + 2) div 4"
proof -
  have "(of_int m :: rat) / 4 + 1 / 2 = of_int (m + 2) / of_int 4" by simp
  then show ?thesis unfolding Math_round_def by (simp only: floor_divide_of_int_eq)
qed

lemma rounded_sum_exact:
  fixes K J s :: int and P :: rat
  assumes K: "0 \<le> K" "K \<le> 300" and J: "0 \<le> J" "J \<le> 60" and s: "0 \<le> s" "s \<le> 100"
    and exact: "5 dvd s \<Longrightarrow> P = of_int (2 * (s div 5)) / 4"
    and P0: "0 \<le> P" and Perr: "\<bar>P - of_int s / 10\<bar> \<le> 1 / 2 ^ 46"
  shows "Math_round (js_add (js_add (of_int K / 4) P) (of_int J / 4)) =
           (5 * K + 2 * s + 5 * J + 10) div 20"
proof (cases "5 dvd s")
  case True
  define m where "m = s div 5"
  from True have sm: "s = 5 * m" by (simp add: m_def)
  with s have m: "0 \<le> m" "m \<le> 20" by simp_all
  have P: "P = of_int (2 * m) / 4" using exact [OF True] by (simp add: m_def)
  have 1: "js_add (of_int K / 4) P = of_int (K + 2 * m) / 4"
    unfolding P using K m by (intro js_add_quarters) simp_all
  have 2: "js_add (of_int (K + 2 * m) / 4) (of_int J / 4) = of_int (K + 2 * m + J) / 4"
    using K J m by (intro js_add_quarters) simp_all
  have "Math_round (js_add (js_add (of_int K / 4) P) (of_int J / 4)) = (K + 2 * m + J + 2) div 4"
    by (simp only: 1 2 Math_round_quarters)
  also have "\<dots> = (5 * K + 2 * s + 5 * J + 10) div 20"
  proof -
    have "5 * K + 2 * s + 5 * J + 10 = 5 * (K + 2 * m + J + 2)" by (simp add: sm)
    moreover have "(5 * (K + 2 * m + J + 2)) div (5 * 4) = (K + 2 * m + J + 2) div 4"
      by (rule div_mult_mult1) simp
    ultimately show ?thesis by simp
  qed
  finally show ?thesis .
next
  case False
  define y5 where "y5 = of_int K / 4 + P"
  define s5 where "s5 = fl y5"
  define y6 where "y6 = s5 + of_int J / 4"
  define s6 where "s6 = fl y6"
  define T :: rat where "T = of_int K / 4 + of_int s / 10 + of_int J / 4"
  have s10: "(of_int s :: rat) / 10 \<le> 10" using s by simp
  have small: "(1::rat) / 2 ^ 46 \<le> 1" "(1::rat) / 2 ^ 47 \<le> 1" "(1::rat) / 2 ^ 45 < 1 / 20" by simp_all
  have Pup: "P \<le> 11" using Perr s10 small(1) by linarith
  have y5: "0 \<le> y5" "y5 < 128" using K P0 Pup s10 by (simp_all add: y5_def)
  have e5: "\<bar>s5 - y5\<bar> \<le> 1 / 2 ^ 47" unfolding s5_def using y5 by (rule fl_error)
  have s50: "0 \<le> s5" unfolding s5_def using y5(1) by (rule fl_nonneg)
  have K4: "(of_int K :: rat) / 4 \<le> 75" using K by simp
  have J4: "0 \<le> (of_int J :: rat) / 4" "(of_int J :: rat) / 4 \<le> 15" using J by simp_all
  have s5up: "s5 \<le> 87" using e5 K4 Pup small(2) unfolding y5_def by linarith
  have y6: "0 \<le> y6" "y6 < 128" using s50 s5up J4 unfolding y6_def by linarith+
  have e6: "\<bar>s6 - y6\<bar> \<le> 1 / 2 ^ 47" unfolding s6_def using y6 by (rule fl_error)
  have "s6 - T = (s6 - y6) + (s5 - y5) + (P - of_int s / 10)"
    by (simp add: y6_def y5_def T_def)
  then have "\<bar>s6 - T\<bar> \<le> \<bar>s6 - y6\<bar> + \<bar>s5 - y5\<bar> + \<bar>P - of_int s / 10\<bar>" by linarith
  with e5 e6 Perr have "\<bar>s6 - T\<bar> \<le> 1 / 2 ^ 47 + 1 / 2 ^ 47 + 1 / 2 ^ 46" by linarith
  moreover have "(1::rat) / 2 ^ 47 + 1 / 2 ^ 47 + 1 / 2 ^ 46 = 1 / 2 ^ 45" by simp
  ultimately have err: "\<bar>s6 - T\<bar> \<le> 1 / 2 ^ 45" by (simp only:)
  define N where "N = 5 * K + 2 * s + 5 * J"
  define q where "q = (N + 10) div 20"
  define t where "t = (N + 10) mod 20"
  define u where "u = K + J + 2"
  have Nu: "N + 10 = 5 * u + 2 * s" by (simp add: N_def u_def)
  have "(5 * u + 2 * s) mod 20 \<noteq> 0" using False by presburger
  moreover have "0 \<le> t" "t < 20" by (simp_all add: t_def)
  ultimately have t: "1 \<le> t" "t \<le> 19" by (simp_all add: t_def Nu)
  have "N + 10 = 20 * q + t" unfolding q_def t_def by simp
  then have "(of_int (N + 10) :: rat) = of_int (20 * q + t)" by simp
  then have "(of_int N :: rat) + 10 = 20 * of_int q + of_int t" by simp
  moreover have "T = of_int N / 20" by (simp add: T_def N_def)
  ultimately have T: "T + 1 / 2 = of_int q + of_int t / 20" by simp
  have tl: "(1::rat) \<le> of_int t" using t(1) by linarith
  have tu: "(of_int t :: rat) \<le> 19" using t(2) by linarith
  have t20: "(1::rat) / 20 \<le> of_int t / 20" "(of_int t :: rat) / 20 \<le> 19 / 20"
    using tl tu by simp_all
  have lo: "of_int q \<le> s6 + 1 / 2" using err T t20(1) small(3) by linarith
  have hi: "s6 + 1 / 2 < of_int q + 1" using err T t20(2) small(3) by linarith
  have "\<lfloor>s6 + 1 / 2\<rfloor> = q" using lo hi by (intro floor_unique) simp_all
  then show ?thesis
    by (simp add: Math_round_def js_add_def s6_def y6_def s5_def y5_def q_def N_def)
qed

lemma weightedSum_exact:
  assumes a: "0 \<le> answerFrontLoading b" "answerFrontLoading b \<le> 100"
    and f: "factDensity b \<in> {0, 25, 60, 75, 95, 100}"
    and h: "headingStructure b \<in> {0, 10, 20, 30, 40, 50, 60, 70, 80, 90, 100}"
    and e: "eeatSignals b \<in> {0, 25, 50, 75, 100}"
    and s: "0 \<le> snippability b" "snippability b \<le> 100"
    and c: "schemaCoverage b \<in> {0, 10, 50, 75, 100}"
  shows "Math_round (weightedSum b) =
           (25 * answerFrontLoading b + 15 * factDensity b + 15 * headingStructure b +
            20 * eeatSignals b + 10 * snippability b + 15 * schemaCoverage b + 50) div 100"
proof -
  define a' where "a' = answerFrontLoading b"
  define f' where "f' = factDensity b div 5"
  define h' where "h' = headingStructure b div 5"
  define e' where "e' = eeatSignals b div 5"
  define c' where "c' = schemaCoverage b div 5"
  define s' where "s' = snippability b"
  have fv: "factDensity b = 5 * f'" "0 \<le> f'" "f' \<le> 20" using f by (auto simp: f'_def)
  have hv: "headingStructure b = 5 * h'" "0 \<le> h'" "h' \<le> 20" using h by (auto simp: h'_def)
  have ev: "eeatSignals b = 5 * e'" "0 \<le> e'" "e' \<le> 20" using e by (auto simp: e'_def)
  have cv: "schemaCoverage b = 5 * c'" "0 \<le> c'" "c' \<le> 20" using c by (auto simp: c'_def)
  have av: "0 \<le> a'" "a' \<le> 100" using a by (simp_all add: a'_def)
  have sv: "0 \<le> s'" "s' \<le> 100" using s by (simp_all add: s'_def)
  have p1: "js_mul (of_int (answerFrontLoading b)) d025 = of_int a' / 4"
    unfolding a'_def using a by (rule js_mul_quarter)
  have p2: "js_mul (of_int (factDensity b)) d015 = of_int (3 * f') / 4"
    unfolding f'_def using f by (intro js_mul_fifteen) auto
  have p3: "js_mul (of_int (headingStructure b)) d015 = of_int (3 * h') / 4"
    unfolding h'_def using h by (intro js_mul_fifteen) auto
  have p4: "js_mul (of_int (eeatSignals b)) d020 = of_int (4 * e') / 4"
    unfolding e'_def using e by (rule js_mul_twenty)
  have p6: "js_mul (of_int (schemaCoverage b)) d015 = of_int (3 * c') / 4"
    unfolding c'_def using c by (intro js_mul_fifteen) auto
  have s1: "js_add 0 (of_int a' / 4) = of_int a' / 4"
    using js_add_quarters [of 0 a'] av by simp
  have s2: "js_add (of_int a' / 4) (of_int (3 * f') / 4) = of_int (a' + 3 * f') / 4"
    using av fv by (intro js_add_quarters) simp_all
  have s3: "js_add (of_int (a' + 3 * f') / 4) (of_int (3 * h') / 4) = of_int (a' + 3 * f' + 3 * h') / 4"
    using av fv hv by (intro js_add_quarters) simp_all
  have s4: "js_add (of_int (a' + 3 * f' + 3 * h') / 4) (of_int (4 * e') / 4) =
      of_int (a' + 3 * f' + 3 * h' + 4 * e') / 4"
    using av fv hv ev by (intro js_add_quarters) simp_all
  define K where "K = a' + 3 * f' + 3 * h' + 4 * e'"
  define P where "P = js_mul (of_int s') d010"
  have K: "0 \<le> K" "K \<le> 300" using av fv hv ev by (simp_all add: K_def)
  have J: "0 \<le> 3 * c'" "3 * c' \<le> 60" using cv by simp_all
  have "weightedSum b = js_add (js_add (of_int K / 4) P) (of_int (3 * c') / 4)"
    unfolding weightedSum_unfold p1 p2 p3 p4 p6 s1 s2 s3 s4 K_def P_def s'_def ..
  moreover have "Math_round (js_add (js_add (of_int K / 4) P) (of_int (3 * c') / 4)) =
      (5 * K + 2 * s' + 5 * (3 * c') + 10) div 20"
  proof (rule rounded_sum_exact [OF K J sv])
    show "P = of_int (2 * (s' div 5)) / 4" if "5 dvd s'"
      unfolding P_def using sv that by (rule js_mul_ten_exact)
    show "0 \<le> P" "\<bar>P - of_int s' / 10\<bar> \<le> 1 / 2 ^ 46"
      unfolding P_def using js_mul_ten_error [OF sv] by simp_all
  qed
  moreover have "(5 * K + 2 * s' + 5 * (3 * c') + 10) div 20 =
      (25 * answerFrontLoading b + 15 * factDensity b + 15 * headingStructure b +
       20 * eeatSignals b + 10 * snippability b + 15 * schemaCoverage b + 50) div 100"
  proof -
    have "25 * answerFrontLoading b + 15 * factDensity b + 15 * headingStructure b +
       20 * eeatSignals b + 10 * snippability b + 15 * schemaCoverage b + 50 =
       5 * (5 * K + 2 * s' + 5 * (3 * c') + 10)"
      by (simp add: fv hv ev cv K_def a'_def s'_def)
    moreover have "(5 * (5 * K + 2 * s' + 5 * (3 * c') + 10)) div (5 * 20) =
        (5 * K + 2 * s' + 5 * (3 * c') + 10) div 20"
      by (rule div_mult_mult1) simp
    ultimately show ?thesis by simp
  qed
  ultimately show ?thesis by (simp only:)
qed

lemma runChecks_values:
  "factDensity (fst (runChecks rt this doc)) \<in> {0, 25, 60, 75, 95, 100}"
  "headingStructure (fst (runChecks rt this doc)) \<in> {0, 10, 20, 30, 40, 50, 60, 70, 80, 90, 100}"
  "eeatSignals (fst (runChecks rt this doc)) \<in> {0, 25, 50, 75, 100}"
  "schemaCoverage (fst (runChecks rt this doc)) \<in> {0, 10, 50, 75, 100}"
proof -
  show "factDensity (fst (runChecks rt this doc)) \<in> {0, 25, 60, 75, 95, 100}"
    using checkFactDensity_values [of rt doc] by (cases "checkFactDensity_option (options this)")
      (auto simp add: fst_runChecks)
  show "headingStructure (fst (runChecks rt this doc)) \<in> {0, 10, 20, 30, 40, 50, 60, 70, 80, 90, 100}"
    using checkHeadingStructure_values [of doc] by (cases "checkHeadingStructure_option (options this)")
      (simp_all add: fst_runChecks)
  show "eeatSignals (fst (runChecks rt this doc)) \<in> {0, 25, 50, 75, 100}"
    using checkEEAT_values [of rt doc] by (cases "checkEEAT_option (options this)")
      (simp_all add: fst_runChecks)
  show "schemaCoverage (fst (runChecks rt this doc)) \<in> {0, 10, 50, 75, 100}"
    using checkSchemaCoverage_values [of rt doc] by (cases "checkSchema_option (options this)")
      (simp_all add: fst_runChecks)
qed

text \<open>
  Claim C1.  The overall score of the result is \<open>Math.round\<close> of the weighted sum of the
  six entries of the returned breakdown, the weights being 0.25, 0.15, 0.15, 0.20, 0.10
  and 0.15 and the products and sums being those of the program's binary64 arithmetic, in
  the order of the reducer.  For every breakdown that the checks can return the binary64
  result is that of exact arithmetic: the overall score is the weighted sum, computed
  exactly, rounded to the nearest integer with halves rounded up.  The overall score
  lies between 0 and 100.
\<close>

theorem overallScore_is_rounded_weighted_sum:
  "overallScore (fst (analyze rt this h)) =
     Math_round
       (js_add (js_add (js_add (js_add (js_add (js_add 0
          (js_mul (of_int (answerFrontLoading (breakdown (fst (analyze rt this h))))) d025))
          (js_mul (of_int (factDensity (breakdown (fst (analyze rt this h))))) d015))
          (js_mul (of_int (headingStructure (breakdown (fst (analyze rt this h))))) d015))
          (js_mul (of_int (eeatSignals (breakdown (fst (analyze rt this h))))) d020))
          (js_mul (of_int (snippability (breakdown (fst (analyze rt this h))))) d010))
          (js_mul (of_int (schemaCoverage (breakdown (fst (analyze rt this h))))) d015)) \<and>
   overallScore (fst (analyze rt this h)) =
     (25 * answerFrontLoading (breakdown (fst (analyze rt this h))) +
      15 * factDensity (breakdown (fst (analyze rt this h))) +
      15 * headingStructure (breakdown (fst (analyze rt this h))) +
      20 * eeatSignals (breakdown (fst (analyze rt this h))) +
      10 * snippability (breakdown (fst (analyze rt this h))) +
      15 * schemaCoverage (breakdown (fst (analyze rt this h))) + 50) div 100 \<and>
   0 \<le> overallScore (fst (analyze rt this h)) \<and>
   overallScore (fst (analyze rt this h)) \<le> 100"
proof -
  let ?b = "fst (runChecks rt this (load rt h))"
  have o: "overallScore (fst (analyze rt this h)) = Math_round (weightedSum ?b)"
    by (rule overallScore_analyze)
  have b: "breakdown (fst (analyze rt this h)) = ?b" by (rule breakdown_analyze)
  note r = runChecks_range [of rt this "load rt h"]
  from r have "0 \<le> weightedSum ?b \<and> weightedSum ?b \<le> 100"
    by (intro weightedSum_range) simp_all
  then have range: "0 \<le> Math_round (weightedSum ?b) \<and> Math_round (weightedSum ?b) \<le> 100"
    using Math_round_range [of "weightedSum ?b" 100] by simp
  have exact: "Math_round (weightedSum ?b) =
      (25 * answerFrontLoading ?b + 15 * factDensity ?b + 15 * headingStructure ?b +
       20 * eeatSignals ?b + 10 * snippability ?b + 15 * schemaCoverage ?b + 50) div 100"
    using r by (intro weightedSum_exact runChecks_values) simp_all
  from range exact show ?thesis
    unfolding o b by (simp only: weightedSum_unfold simp_thms)
qed

end
